theory Spec2Isabelle
  imports Main "HOL-Library.Word"
begin

section \<open>Errors\<close>

text \<open>
  Every \<open>throw\<close> of the modelled TypeScript is a value of this type; a function that can
  throw returns \<open>error + 'a\<close>, with \<open>Inl\<close> the exception.
\<close>

datatype error =
    NodeNotFound int
      \<comment> \<open>\<open>Error(`Node ${nodeId} not found`)\<close>\<close>
  | NoUserCodeCC int
      \<comment> \<open>\<open>Error(`Node ${nodeId} does not support User Code command class`)\<close>\<close>
  | DriverError string
      \<comment> \<open>an exception thrown by a call into the protocol driver, rethrown as it is\<close>
  | SetRejected int "int option"
      \<comment> \<open>\<open>Error(`Failed to set user code in slot ${slot} - lock rejected the code
          (status remains ${status}). Code may be duplicate or invalid.`)\<close>\<close>
  | InvalidPin
      \<comment> \<open>\<open>Error('PIN must be 4-8 digits')\<close>\<close>
  | TypeError
      \<comment> \<open>reading \<open>.codes\<close> of a parsed file that is not a storage object\<close>
  | WriteError
      \<comment> \<open>\<open>fs.writeFileSync\<close> failed; \<open>saveStorage\<close> rethrows\<close>
  | CipherError
      \<comment> \<open>the cipher or the decipher threw (a key or nonce it refuses, a hex string
          of odd length, a failed authentication)\<close>

section \<open>The code store (code-storage.ts)\<close>

subsection \<open>Hex strings and buffers\<close>

type_synonym byte = "8 word"

definition hex_digit :: "nat \<Rightarrow> char" where
  "hex_digit n = ''0123456789abcdef'' ! (n mod 16)"

definition hex_value :: "char \<Rightarrow> nat option" where
  "hex_value c =
     (if c \<in> set ''0123456789'' then Some (of_char c - 48)
      else if c \<in> set ''abcdef'' then Some (of_char c - 87)
      else if c \<in> set ''ABCDEF'' then Some (of_char c - 55)
      else None)"

text \<open>\<open>buf.toString('hex')\<close>: two lower-case digits per byte.\<close>

fun to_hex :: "byte list \<Rightarrow> string" where
  "to_hex [] = []"
| "to_hex (b # bs) = hex_digit (unat b div 16) # hex_digit (unat b mod 16) # to_hex bs"

text \<open>
  \<open>Buffer.from(s, 'hex')\<close>: pairs of hex digits, decoding stops at the first pair that is
  not one (and a trailing single character is dropped).
\<close>

fun from_hex :: "string \<Rightarrow> byte list" where
  "from_hex (a # b # rest) =
     (case (hex_value a, hex_value b) of
        (Some x, Some y) \<Rightarrow> of_nat (16 * x + y) # from_hex rest
      | _ \<Rightarrow> [])"
| "from_hex _ = []"

text \<open>
  The \<open>'utf8'\<close> input and output encodings of the cipher. A HOL string is a list of
  8-bit characters, read here as the UTF-8 bytes of the text; the two maps are exact on
  ASCII text, which is all \<open>saveCode\<close> ever encrypts (a PIN is digits).
\<close>

definition utf8_bytes :: "string \<Rightarrow> byte list" where
  "utf8_bytes s = map (\<lambda>c. of_nat (of_char c)) s"

definition utf8_string :: "byte list \<Rightarrow> string" where
  "utf8_string bs = map (\<lambda>b. char_of (unat b)) bs"

subsection \<open>Encryption\<close>

text \<open>
  \<open>crypto.createCipheriv('aes-256-gcm', key, iv)\<close> and its decipher belong to the Node
  runtime, not to the repository: they are a parameter. \<open>seal key iv plaintext\<close> is the
  pair (ciphertext, authentication tag) of \<open>update\<close>/\<open>final\<close>/\<open>getAuthTag\<close>, and
  \<open>None\<close> where \<open>createCipheriv\<close> throws; \<open>unseal key iv ciphertext tag\<close> is \<open>None\<close>
  where \<open>createDecipheriv\<close>, \<open>setAuthTag\<close> or \<open>final\<close> throws.
\<close>

record cipher =
  seal :: "byte list \<Rightarrow> byte list \<Rightarrow> byte list \<Rightarrow> (byte list \<times> byte list) option"
  unseal :: "byte list \<Rightarrow> byte list \<Rightarrow> byte list \<Rightarrow> byte list \<Rightarrow> byte list option"

definition IV_LENGTH :: nat where "IV_LENGTH = 16"
definition AUTH_TAG_LENGTH :: nat where "AUTH_TAG_LENGTH = 16"

text \<open>
  \<open>encrypt(text)\<close>. The key is the module's \<open>encryptionKey\<close> and \<open>iv\<close> is what
  \<open>crypto.randomBytes(IV_LENGTH)\<close> returned for this call.
\<close>

definition encrypt :: "cipher \<Rightarrow> byte list \<Rightarrow> byte list \<Rightarrow> string \<Rightarrow> error + string" where
  "encrypt C key iv txt =
     (case seal C key iv (utf8_bytes txt) of
        None \<Rightarrow> Inl CipherError
      | Some (encrypted, authTag) \<Rightarrow> Inr (to_hex iv @ to_hex authTag @ to_hex encrypted))"

text \<open>
  \<open>decrypt(encryptedData)\<close>. The nonce and the tag are decoded by \<open>Buffer.from\<close>; the
  payload is decoded by \<open>decipher.update(encrypted, 'hex', 'utf8')\<close>, which throws on a
  hex string of odd length and otherwise decodes as \<open>Buffer.from\<close> does.
\<close>

definition decrypt :: "cipher \<Rightarrow> byte list \<Rightarrow> string \<Rightarrow> error + string" where
  "decrypt C key encryptedData =
     (let iv = from_hex (take (IV_LENGTH * 2) encryptedData);
          authTag = from_hex (take (AUTH_TAG_LENGTH * 2) (drop (IV_LENGTH * 2) encryptedData));
          encrypted = drop ((IV_LENGTH + AUTH_TAG_LENGTH) * 2) encryptedData
      in if odd (length encrypted) then Inl CipherError
         else (case unseal C key iv (from_hex encrypted) authTag of
                 None \<Rightarrow> Inl CipherError
               | Some decrypted \<Rightarrow> Inr (utf8_string decrypted)))"

subsection \<open>The store file\<close>

record UserCode =
  slot :: int
  name :: string
  pin :: string

text \<open>
  What \<open>JSON.parse\<close> of the store file returns: a storage object \<open>{ codes: [...] }\<close>, or
  some other JSON value (\<open>null\<close>, a number, an object without \<open>codes\<close>), on which
  \<open>storage.codes.map\<close> and \<open>storage.codes.filter\<close> throw a TypeError.
\<close>

datatype json_value = Storage "UserCode list" | OtherJson

datatype file_state =
    Missing         \<comment> \<open>\<open>fs.existsSync\<close> is false\<close>
  | Unreadable      \<comment> \<open>\<open>fs.readFileSync\<close> throws\<close>
  | Unparseable     \<comment> \<open>\<open>JSON.parse\<close> throws\<close>
  | Parsed json_value

text \<open>
  What the next \<open>fs.writeFileSync\<close> on the store file will do: write it; throw with
  the file untouched (it cannot be opened for writing); or throw after the open, which
  has truncated the file, so that an empty or partial text is left, which \<open>JSON.parse\<close>
  refuses.
\<close>

datatype write_outcome = Written | Refused | Truncated

record filesystem =
  storageFile :: file_state
  nextWrite :: write_outcome

definition loadStorage :: "filesystem \<Rightarrow> json_value" where
  "loadStorage fs =
     (case storageFile fs of
        Parsed j \<Rightarrow> j
      | _ \<Rightarrow> Storage [])"

definition saveStorage :: "json_value \<Rightarrow> filesystem \<Rightarrow> (error + unit) \<times> filesystem" where
  "saveStorage storage fs =
     (case nextWrite fs of
        Written \<Rightarrow> (Inr (), fs\<lparr>storageFile := Parsed storage\<rparr>)
      | Refused \<Rightarrow> (Inl WriteError, fs)
      | Truncated \<Rightarrow> (Inl WriteError, fs\<lparr>storageFile := Unparseable\<rparr>))"

definition getAllCodes :: "filesystem \<Rightarrow> error + (int \<times> string) list" where
  "getAllCodes fs =
     (case loadStorage fs of
        OtherJson \<Rightarrow> Inl TypeError
      | Storage cs \<Rightarrow> Inr (map (\<lambda>c. (slot c, name c)) cs))"

definition getCode ::
  "cipher \<Rightarrow> byte list \<Rightarrow> int \<Rightarrow> filesystem \<Rightarrow> error + (string \<times> string) option" where
  "getCode C key s fs =
     (case loadStorage fs of
        OtherJson \<Rightarrow> Inl TypeError
      | Storage cs \<Rightarrow>
          (case find (\<lambda>c. slot c = s) cs of
             None \<Rightarrow> Inr None
           | Some c \<Rightarrow>
               (case decrypt C key (pin c) of
                  Inl e \<Rightarrow> Inl e
                | Inr p \<Rightarrow> Inr (Some (name c, p)))))"

text \<open>The test \<open>/^\d{4,8}$/\<close>.\<close>

definition valid_pin :: "string \<Rightarrow> bool" where
  "valid_pin p \<longleftrightarrow> 4 \<le> length p \<and> length p \<le> 8 \<and> list_all (\<lambda>c. c \<in> set ''0123456789'') p"

definition saveCode ::
  "cipher \<Rightarrow> byte list \<Rightarrow> byte list \<Rightarrow> int \<Rightarrow> string \<Rightarrow> string \<Rightarrow> filesystem
     \<Rightarrow> (error + unit) \<times> filesystem" where
  "saveCode C key iv s nm p fs =
     (let storage = loadStorage fs
      in if \<not> valid_pin p then (Inl InvalidPin, fs)
         else case storage of
                OtherJson \<Rightarrow> (Inl TypeError, fs)
              | Storage cs \<Rightarrow>
                  (case encrypt C key iv p of
                     Inl e \<Rightarrow> (Inl e, fs)
                   | Inr secret \<Rightarrow>
                       saveStorage
                         (Storage (sort_key slot
                            (filter (\<lambda>c. slot c \<noteq> s) cs
                               @ [\<lparr>slot = s, name = nm, pin = secret\<rparr>])))
                         fs))"

definition deleteCode :: "int \<Rightarrow> filesystem \<Rightarrow> (error + unit) \<times> filesystem" where
  "deleteCode s fs =
     (case loadStorage fs of
        OtherJson \<Rightarrow> (Inl TypeError, fs)
      | Storage cs \<Rightarrow> saveStorage (Storage (filter (\<lambda>c. slot c \<noteq> s) cs)) fs)"

section \<open>The lock command workflow (commands.ts)\<close>

subsection \<open>The protocol driver\<close>

text \<open>
  The calls the workflow makes on \<open>node.commandClasses['User Code']\<close>; \<open>Set slot status
  code\<close> is \<open>userCodeCC.set(slot, status, code)\<close>.
\<close>

datatype command =
    GetCapabilities
  | Get int
  | Set int int string
  | Clear int
  | GetUsersCount

text \<open>
  What a call does: it throws, or returns \<open>undefined\<close>, a user-code report
  \<open>{ userIdStatus, userCode }\<close>, a number, a supervision result or a capabilities object.
  By its zwave-js signature \<open>get\<close> returns a report or \<open>undefined\<close>, \<open>getUsersCount\<close> a
  number or \<open>undefined\<close>, \<open>set\<close> and \<open>clear\<close> a supervision result or \<open>undefined\<close>. The
  workflow reads \<open>userIdStatus\<close> of a report and the number of \<open>getUsersCount\<close>; the
  other values are only printed, and a value of a kind the signature excludes is read as
  \<open>undefined\<close>.
\<close>

datatype response =
    Threw string
  | Undefined
  | UserCodeReport int "string option"
  | Number int
  | Supervision int
  | Capabilities

text \<open>
  The driver is external. It is a transition function on a state \<open>'d\<close> of the network
  and its devices that the repository never sees, \<open>elapse\<close> is what a \<open>setTimeout\<close> wait
  lets the devices do, and \<open>nodes\<close> is \<open>driver.controller.nodes.get\<close>, a node carrying
  whether \<open>commandClasses['User Code']\<close> is there.
\<close>

datatype node = Node (hasUserCodeCC: bool)

record 'd driver =
  nodes :: "int \<Rightarrow> node option"
  exec :: "'d \<Rightarrow> int \<Rightarrow> command \<Rightarrow> response \<times> 'd"
  elapse :: "'d \<Rightarrow> nat \<Rightarrow> 'd"

text \<open>
  The world a command runs in: the devices, the store file of code-storage.ts, and the
  record of every call made on a device and of every wait, in order.
\<close>

datatype event = Issued int command response | Waited nat

record 'd world =
  net :: 'd
  trace :: "event list"
  files :: filesystem

definition call :: "'d driver \<Rightarrow> int \<Rightarrow> command \<Rightarrow> 'd world \<Rightarrow> response \<times> 'd world" where
  "call drv n c w =
     (let (r, d) = exec drv (net w) n c
      in (r, w\<lparr>net := d, trace := trace w @ [Issued n c r]\<rparr>))"

definition wait :: "'d driver \<Rightarrow> nat \<Rightarrow> 'd world \<Rightarrow> 'd world" where
  "wait drv ms w = w\<lparr>net := elapse drv (net w) ms, trace := trace w @ [Waited ms]\<rparr>"

text \<open>\<open>v?.userIdStatus\<close>: \<open>None\<close> is \<open>undefined\<close>.\<close>

fun userIdStatus :: "response \<Rightarrow> int option" where
  "userIdStatus (UserCodeReport st _) = Some st"
| "userIdStatus _ = None"

subsection \<open>setUserCode\<close>

text \<open>
  The capabilities query and the first read of the slot sit in \<open>try\<close>/\<open>catch\<close> blocks that
  only print; the \<open>set\<close> and the verification read rethrow.
\<close>

definition setUserCode ::
  "'d driver \<Rightarrow> int \<Rightarrow> int \<Rightarrow> string \<Rightarrow> 'd world \<Rightarrow> (error + unit) \<times> 'd world" where
  "setUserCode drv nodeId s code w =
     (case nodes drv nodeId of
        None \<Rightarrow> (Inl (NodeNotFound nodeId), w)
      | Some nd \<Rightarrow>
          (if \<not> hasUserCodeCC nd then (Inl (NoUserCodeCC nodeId), w)
           else
             (let (capabilities, w1) = call drv nodeId GetCapabilities w;
                  (currentState, w2) = call drv nodeId (Get s) w1;
                  (supervisionResult, w3) = call drv nodeId (Set s 1 code) w2
              in (case supervisionResult of
                    Threw e \<Rightarrow> (Inl (DriverError e), w3)
                  | _ \<Rightarrow>
                      (let w4 = wait drv 5000 w3;
                           (verification, w5) = call drv nodeId (Get s) w4
                       in (case verification of
                             Threw e \<Rightarrow> (Inl (DriverError e), w5)
                           | _ \<Rightarrow>
                               (if userIdStatus verification \<noteq> Some 1
                                then (Inl (SetRejected s (userIdStatus verification)), w5)
                                else (Inr (), w5))))))))"

subsection \<open>deleteUserCode\<close>

definition deleteUserCode ::
  "'d driver \<Rightarrow> int \<Rightarrow> int \<Rightarrow> 'd world \<Rightarrow> (error + unit) \<times> 'd world" where
  "deleteUserCode drv nodeId s w =
     (case nodes drv nodeId of
        None \<Rightarrow> (Inl (NodeNotFound nodeId), w)
      | Some nd \<Rightarrow>
          (if \<not> hasUserCodeCC nd then (Inl (NoUserCodeCC nodeId), w)
           else
             (let (r, w1) = call drv nodeId (Clear s) w
              in (case r of
                    Threw e \<Rightarrow> (Inl (DriverError e), w1)
                  | _ \<Rightarrow> (Inr (), w1)))))"

subsection \<open>getUserCodes\<close>




section \<open>The connection lifecycle (driver.ts)\<close>

text \<open>
  The module's three variables, and beside them the reconnect timers that
  \<open>setTimeout\<close> has created and that have neither fired nor been cleared: \<open>timers\<close> is
  the event loop's side of \<open>reconnectTimeout\<close>, so that a timer the module has lost
  track of would still be counted. Drivers and timer handles are numbered.
\<close>

record lifecycle =
  driverInstance :: "nat option"
  reconnectTimeout :: "nat option"
  isReconnecting :: bool
  timers :: "nat list"
  nextHandle :: nat

definition initial :: lifecycle where
  "initial = \<lparr>driverInstance = None, reconnectTimeout = None, isReconnecting = False,
     timers = [], nextHandle = 0\<rparr>"

text \<open>\<open>msg.includes(sub)\<close>.\<close>

fun msg_includes :: "string \<Rightarrow> string \<Rightarrow> bool" where
  "msg_includes [] sub = (sub = [])"
| "msg_includes (c # cs) sub = (take (length sub) (c # cs) = sub \<or> msg_includes cs sub)"

definition clearTimeout :: "nat \<Rightarrow> lifecycle \<Rightarrow> lifecycle" where
  "clearTimeout h st = st\<lparr>timers := removeAll h (timers st)\<rparr>"

text \<open>
  \<open>scheduleReconnect\<close>, up to the callback it hands to \<open>setTimeout\<close> (the callback is
  \<open>TimerFired\<close> below).
\<close>

definition scheduleReconnect :: "lifecycle \<Rightarrow> lifecycle" where
  "scheduleReconnect st =
     (if reconnectTimeout st \<noteq> None then st
      else st\<lparr>isReconnecting := True,
              reconnectTimeout := Some (nextHandle st),
              timers := timers st @ [nextHandle st],
              nextHandle := nextHandle st + 1\<rparr>)"

text \<open>
  The module is asynchronous: between two \<open>await\<close>s a piece of it runs alone, and the
  pieces of different calls and handlers interleave. Each piece that touches the
  variables is an action:
  \<^item> \<open>DriverErrorEvent msg retryOnFailure\<close>: the handler of a driver's \<open>'error'\<close> event;
  \<^item> \<open>DriverReadyEvent\<close>: the handler of \<open>'driver ready'\<close>;
  \<^item> \<open>StartResolved d\<close>: the end of \<open>initializeDriver\<close>'s \<open>try\<close> block, once
    \<open>driver.start()\<close> has resolved and the driver \<open>d\<close> is ready;
  \<^item> \<open>StartRejected msg retryOnFailure\<close>: its \<open>catch\<close> block, \<open>msg\<close> being the message of
    what \<open>driver.start()\<close> or the 60 s readiness race threw;
  \<^item> \<open>TimerFired h\<close>: the reconnect timer \<open>h\<close> fires and its callback runs up to its first
    \<open>await\<close>; a timer that is not pending cannot fire;
  \<^item> \<open>OldDriverDestroyed\<close>: the callback's \<open>driverInstance = null\<close> after the old driver's
    \<open>destroy()\<close>;
  \<^item> \<open>Shutdown destroyed\<close>: \<open>shutdownDriver\<close>, \<open>destroyed\<close> telling whether \<open>destroy()\<close>
    returned.
\<close>

datatype action =
    DriverErrorEvent string bool
  | DriverReadyEvent
  | StartResolved nat
  | StartRejected string bool
  | TimerFired nat
  | OldDriverDestroyed
  | Shutdown bool

fun step :: "action \<Rightarrow> lifecycle \<Rightarrow> lifecycle" where
  "step (DriverErrorEvent msg retryOnFailure) st =
     (if msg_includes msg ''serial port'' \<or> msg_includes msg ''ENOENT''
      then (if retryOnFailure \<and> \<not> isReconnecting st then scheduleReconnect st else st)
      else st)"
| "step DriverReadyEvent st =
     (let st1 = (case reconnectTimeout st of
                   Some h \<Rightarrow> (clearTimeout h st)\<lparr>reconnectTimeout := None\<rparr>
                 | None \<Rightarrow> st)
      in st1\<lparr>isReconnecting := False\<rparr>)"
| "step (StartResolved d) st = st\<lparr>driverInstance := Some d, isReconnecting := False\<rparr>"
| "step (StartRejected msg retryOnFailure) st =
     (if retryOnFailure \<and> \<not> isReconnecting st
      then (if msg_includes msg ''timeout'' \<or> msg_includes msg ''serial port'' \<or> msg_includes msg ''ENOENT''
            then scheduleReconnect st else st)
      else st)"
| "step (TimerFired h) st =
     (if h \<in> set (timers st)
      then st\<lparr>timers := remove1 h (timers st), reconnectTimeout := None\<rparr>
      else st)"
| "step OldDriverDestroyed st = st\<lparr>driverInstance := None\<rparr>"
| "step (Shutdown destroyed) st =
     (let st1 = (case reconnectTimeout st of
                   Some h \<Rightarrow> (clearTimeout h st)\<lparr>reconnectTimeout := None\<rparr>
                 | None \<Rightarrow> st);
          st2 = (if driverInstance st1 \<noteq> None \<and> destroyed
                 then st1\<lparr>driverInstance := None\<rparr> else st1)
      in st2\<lparr>isReconnecting := False\<rparr>)"

definition run :: "action list \<Rightarrow> lifecycle \<Rightarrow> lifecycle" where
  "run acts st = fold step acts st"

text \<open>
  One connection attempt, as the driver decides it: the driver becomes ready, or
  \<open>driver.start()\<close> (or the readiness race) throws the message.
\<close>

datatype attempt = BecomesReady | Fails string

record config =
  serialPort :: "string option"

datatype connect_error = ConfigError | StartFailed string

text \<open>
  \<open>initializeDriver(config, retryOnFailure)\<close> run with nothing else in between, for the
  driver numbered \<open>d\<close>. \<open>!config.serialPort\<close> holds of a missing and of an empty port. A
  driver that becomes ready emits \<open>'driver ready'\<close> before the \<open>try\<close> block ends.
\<close>

definition initializeDriver ::
  "config \<Rightarrow> bool \<Rightarrow> nat \<Rightarrow> attempt \<Rightarrow> lifecycle \<Rightarrow> (connect_error + nat) \<times> lifecycle" where
  "initializeDriver cfg retryOnFailure d a st =
     (if serialPort cfg = None \<or> serialPort cfg = Some [] then (Inl ConfigError, st)
      else (case a of
              BecomesReady \<Rightarrow> (Inr d, step (StartResolved d) (step DriverReadyEvent st))
            | Fails msg \<Rightarrow> (Inl (StartFailed msg), step (StartRejected msg retryOnFailure) st)))"

text \<open>
  The callback \<open>scheduleReconnect\<close> hands to \<open>setTimeout\<close>, for the timer \<open>h\<close>: it forgets
  the timer, destroys the old driver if there is one, calls \<open>initializeDriver(config,
  true)\<close> and swallows what that throws.
\<close>

definition reconnect_callback ::
  "config \<Rightarrow> nat \<Rightarrow> nat \<Rightarrow> attempt \<Rightarrow> lifecycle \<Rightarrow> lifecycle" where
  "reconnect_callback cfg h d a st =
     (let st1 = step (TimerFired h) st;
          st2 = (if driverInstance st1 \<noteq> None then step OldDriverDestroyed st1 else st1)
      in snd (initializeDriver cfg True d a st2))"

text \<open>
  What the module does by itself after a first \<open>initializeDriver(config)\<close>, the driver
  deciding the attempts in the order of the list: each pending reconnect timer fires and
  its callback makes the next attempt; with no timer pending nothing of the module runs
  any more, and the attempts left are never made. The result is the final state and the
  attempts left.
\<close>

fun reconnect_loop ::
  "config \<Rightarrow> nat \<Rightarrow> attempt list \<Rightarrow> lifecycle \<Rightarrow> lifecycle \<times> attempt list" where
  "reconnect_loop cfg d [] st = (st, [])"
| "reconnect_loop cfg d (a # as) st =
     (case timers st of
        [] \<Rightarrow> (st, a # as)
      | h # _ \<Rightarrow> reconnect_loop cfg (d + 1) as (reconnect_callback cfg h d a st))"

definition connect :: "config \<Rightarrow> attempt list \<Rightarrow> lifecycle \<times> attempt list" where
  "connect cfg attempts =
     (case attempts of
        [] \<Rightarrow> (initial, [])
      | a # as \<Rightarrow> reconnect_loop cfg 1 as (snd (initializeDriver cfg True 0 a initial)))"

section \<open>Test doubles and the specification's outcomes\<close>

subsection \<open>What is asked of the cipher\<close>

text \<open>
  Under a 32-byte key and a nonce of \<open>IV_LENGTH\<close> bytes the cipher returns a ciphertext
  with a tag of \<open>AUTH_TAG_LENGTH\<close> bytes, and the decipher gives the plaintext back.
\<close>

definition cipher_correct :: "cipher \<Rightarrow> bool" where
  "cipher_correct C \<longleftrightarrow>
     (\<forall>key iv pt. length key = 32 \<and> length iv = IV_LENGTH \<longrightarrow>
        (\<exists>ct tag. seal C key iv pt = Some (ct, tag) \<and> length tag = AUTH_TAG_LENGTH
           \<and> unseal C key iv ct tag = Some pt))"

text \<open>A stand-in cipher for concrete runs: it shifts every byte and tags with the length.\<close>

definition test_cipher :: cipher where
  "test_cipher =
     \<lparr>seal = (\<lambda>key iv pt.
        if length key = 32 \<and> length iv = 16
        then Some (map (\<lambda>b. b + 1) pt, replicate 16 (of_nat (length pt)))
        else None),
      unseal = (\<lambda>key iv ct tag.
        if length key = 32 \<and> length iv = 16 \<and> tag = replicate 16 (of_nat (length ct))
        then Some (map (\<lambda>b. b - 1) ct)
        else None)\<rparr>"

definition test_key :: "byte list" where
  "test_key = replicate 32 7"

definition test_iv :: "byte list" where
  "test_iv = replicate 16 9"

subsection \<open>A simulated lock\<close>

text \<open>
  Node 8 is a lock with the User Code command class, node 2 a device without it. The
  state is the list of the statuses written to the slots, latest first; a slot never
  written is Available (0). The lock has no capabilities query (User Code CC version 1),
  it stores a code that is set only if \<open>accepts\<close>, and acknowledges the \<open>set\<close> either
  way; \<open>count\<close> is what \<open>getUsersCount\<close> returns; a call on a slot of \<open>asleep\<close> throws.
\<close>

definition slot_status :: "(int \<times> int) list \<Rightarrow> int \<Rightarrow> int" where
  "slot_status d s = (case map_of d s of Some st \<Rightarrow> st | None \<Rightarrow> 0)"

definition sim_lock :: "bool \<Rightarrow> response \<Rightarrow> int list \<Rightarrow> (int \<times> int) list driver" where
  "sim_lock accepts count asleep =
     \<lparr>nodes = (\<lambda>n. if n = 8 then Some (Node True) else if n = 2 then Some (Node False) else None),
      exec = (\<lambda>d n c.
        case c of
          GetCapabilities \<Rightarrow> (Threw ''not supported'', d)
        | Get s \<Rightarrow>
            if s \<in> set asleep then (Threw ''timeout'', d)
            else (UserCodeReport (slot_status d s) None, d)
        | Set s st code \<Rightarrow> (Undefined, if accepts then (s, st) # d else d)
        | Clear s \<Rightarrow>
            if s \<in> set asleep then (Threw ''timeout'', d) else (Undefined, (s, 0) # d)
        | GetUsersCount \<Rightarrow> (count, d)),
      elapse = (\<lambda>d ms. d)\<rparr>"

definition start_world :: "'d \<Rightarrow> filesystem \<Rightarrow> 'd world" where
  "start_world d fs = \<lparr>net = d, trace = [], files = fs\<rparr>"

definition stored :: "UserCode list \<Rightarrow> filesystem" where
  "stored cs = \<lparr>storageFile = Parsed (Storage cs), nextWrite = Written\<rparr>"

subsection \<open>A sequence of saves\<close>

text \<open>
  \<open>saveCode\<close> called once for each \<open>(iv, slot, name, pin)\<close> of the list, \<open>iv\<close> the nonce
  drawn in that call; a call that throws leaves the file as it was.
\<close>

fun saveCodes ::
  "cipher \<Rightarrow> byte list \<Rightarrow> (byte list \<times> int \<times> string \<times> string) list \<Rightarrow> filesystem
     \<Rightarrow> filesystem" where
  "saveCodes C key [] fs = fs"
| "saveCodes C key ((iv, s, nm, p) # rest) fs =
     saveCodes C key rest (snd (saveCode C key iv s nm p fs))"

subsection \<open>The outcome the specification describes\<close>

text \<open>
  The specification's classification of a set-code attempt by its re-read (section 4.2,
  step 5), written from its words for comparison with \<open>setUserCode\<close>: Occupied is
  \<open>Confirmed\<close>; otherwise \<open>RejectedLikelyDuplicate\<close> if the store holds the PIN in
  another slot and \<open>RejectedUnknownReason\<close> if not; a failed re-read is
  \<open>DeviceUnreachable\<close>.
\<close>

datatype VerifiedSetResult =
  Confirmed | RejectedUnknownReason | RejectedLikelyDuplicate | DeviceUnreachable

definition spec_holds_pin_elsewhere ::
  "cipher \<Rightarrow> byte list \<Rightarrow> filesystem \<Rightarrow> int \<Rightarrow> string \<Rightarrow> bool" where
  "spec_holds_pin_elsewhere C key fs s p =
     (case loadStorage fs of
        Storage cs \<Rightarrow> list_ex (\<lambda>c. slot c \<noteq> s \<and> decrypt C key (pin c) = Inr p) cs
      | OtherJson \<Rightarrow> False)"

definition spec_VerifiedSetResult ::
  "cipher \<Rightarrow> byte list \<Rightarrow> filesystem \<Rightarrow> int \<Rightarrow> string \<Rightarrow> response \<Rightarrow> VerifiedSetResult" where
  "spec_VerifiedSetResult C key fs s p reread =
     (case reread of
        Threw e \<Rightarrow> DeviceUnreachable
      | _ \<Rightarrow>
          (if userIdStatus reread = Some 1 then Confirmed
           else if spec_holds_pin_elsewhere C key fs s p then RejectedLikelyDuplicate
           else RejectedUnknownReason))"

subsection \<open>What a listing shows\<close>

text \<open>The projection \<open>getAllCodes\<close> maps over the records: slot and name, not the secret.\<close>

definition listing :: "UserCode list \<Rightarrow> (int \<times> string) list" where
  "listing cs = map (\<lambda>c. (slot c, name c)) cs"

subsection \<open>A stored record\<close>

text \<open>The PIN 1111 under slot 5, encrypted by the stand-in cipher under \<open>test_key\<close> and \<open>test_iv\<close>.\<close>

definition family_1111 :: UserCode where
  "family_1111 = \<lparr>slot = 5, name = ''family'',
     pin = ''090909090909090909090909090909090404040404040404040404040404040432323232''\<rparr>"

text \<open>The PIN 4321 under slot 3, encrypted likewise.\<close>

definition guest_4321 :: UserCode where
  "guest_4321 = \<lparr>slot = 3, name = ''guest'',
     pin = ''090909090909090909090909090909090404040404040404040404040404040435343332''\<rparr>"

subsection \<open>Reading the record of calls\<close>

text \<open>
  \<open>issued_command\<close> is the node and command of a call; \<open>occupied\<close> is the entry
  \<open>{ slot, status }\<close> that a slot query contributes to the result of \<open>getUserCodes\<close>:
  one for a report with a status other than 0.
\<close>

fun occupied :: "event \<Rightarrow> (int \<times> int) option" where
  "occupied (Issued n (Get s) (UserCodeReport st c)) = (if st \<noteq> 0 then Some (s, st) else None)"
| "occupied _ = None"


subsection \<open>The reconnect timers\<close>

text \<open>
  \<open>one_timer\<close>: the pending reconnect timers are exactly the one \<open>reconnectTimeout\<close>
  holds, if it holds one. \<open>test_config\<close> names a port, and \<open>port_gone\<close> is the message
  of a failure to open it.
\<close>

definition one_timer :: "lifecycle \<Rightarrow> bool" where
  "one_timer st \<longleftrightarrow>
     timers st = (case reconnectTimeout st of None \<Rightarrow> [] | Some h \<Rightarrow> [h])"

definition test_config :: config where
  "test_config = \<lparr>serialPort = Some ''/dev/ttyUSB0''\<rparr>"

definition port_gone :: string where
  "port_gone = ''Failed to open the serial port''"

subsection \<open>Respelling a blob\<close>

text \<open>
  \<open>upper_hex\<close> puts a hex letter in upper case and leaves every other character;
  \<open>nines_blob\<close> is the PIN 9999 encrypted by the stand-in cipher under \<open>test_key\<close> and
  \<open>test_iv\<close>.
\<close>

definition upper_hex :: "char \<Rightarrow> char" where
  "upper_hex c = (if c \<in> set ''abcdef'' then char_of (of_char c - (32::nat)) else c)"

definition nines_blob :: string where
  "nines_blob = ''09090909090909090909090909090909040404040404040404040404040404043a3a3a3a''"

section \<open>Properties of the code store\<close>

lemma test_cipher_correct: "cipher_correct test_cipher"
  by (auto simp: cipher_correct_def test_cipher_def IV_LENGTH_def AUTH_TAG_LENGTH_def comp_def)

lemma hex_value_digit_all: "list_all (\<lambda>k. hex_value (hex_digit k) = Some k) [0..<16]"
  by code_simp

lemma hex_value_digit: "k < 16 \<Longrightarrow> hex_value (hex_digit k) = Some k"
  using hex_value_digit_all by (simp add: list_all_iff)

lemma from_hex_to_hex: "from_hex (to_hex bs) = bs"
proof (induction bs)
  case Nil
  then show ?case by simp
next
  case (Cons b bs)
  have "unat b < 256" using unsigned_less [of b, where 'a = nat] by simp
  then have "unat b div 16 < 16" by simp
  moreover have "unat b mod 16 < 16" by simp
  moreover have "(of_nat (16 * (unat b div 16) + unat b mod 16) :: byte) = b"
    by simp
  ultimately show ?case using Cons by (simp add: hex_value_digit)
qed

lemma length_to_hex: "length (to_hex bs) = 2 * length bs"
  by (induction bs) simp_all

lemma utf8_roundtrip: "utf8_string (utf8_bytes s) = s"
  by (induction s) (simp_all add: utf8_bytes_def utf8_string_def unat_of_nat)

text \<open>
  The blob \<open>encrypt\<close> returns is the hex of nonce, tag and ciphertext in this order, and
  \<open>decrypt\<close> cuts it at the same places: given a correct cipher, what was encrypted comes
  back.
\<close>

lemma decrypt_encrypt:
  assumes "cipher_correct C" "length key = 32" "length iv = IV_LENGTH"
  shows "\<exists>blob. encrypt C key iv txt = Inr blob \<and> decrypt C key blob = Inr txt"
proof -
  from assms obtain ct tag where
    s: "seal C key iv (utf8_bytes txt) = Some (ct, tag)" and l: "length tag = AUTH_TAG_LENGTH"
    and u: "unseal C key iv ct tag = Some (utf8_bytes txt)"
    unfolding cipher_correct_def by blast
  let ?blob = "to_hex iv @ to_hex tag @ to_hex ct"
  have e: "encrypt C key iv txt = Inr ?blob" by (simp add: encrypt_def s)
  have "decrypt C key ?blob = Inr txt"
    using assms(3) l u
    by (simp add: decrypt_def length_to_hex from_hex_to_hex utf8_roundtrip Let_def)
  with e show ?thesis by blast
qed

text \<open>
  \<open>decrypt\<close> hands the tag and the ciphertext of the blob to the decipher as they are,
  and throws when the decipher refuses them: no plaintext is returned unauthenticated.
\<close>

lemma decrypt_fails_when_decipher_rejects:
  assumes "length iv = IV_LENGTH" "length tag = AUTH_TAG_LENGTH"
    and "unseal C key iv ct tag = None"
  shows "decrypt C key (to_hex iv @ to_hex tag @ to_hex ct) = Inl CipherError"
  using assms by (simp add: decrypt_def length_to_hex from_hex_to_hex Let_def)

subsection \<open>What decrypt accepts\<close>

lemma hex_value_upper_letters:
  "list_all (\<lambda>c. hex_value (upper_hex c) = hex_value c) ''abcdef''"
  by code_simp

lemma hex_value_upper: "hex_value (upper_hex c) = hex_value c"
proof (cases "c \<in> set ''abcdef''")
  case True
  with hex_value_upper_letters show ?thesis unfolding list_all_iff by blast
next
  case False
  then show ?thesis by (simp add: upper_hex_def)
qed

lemma from_hex_upper: "from_hex (map upper_hex s) = from_hex s"
  by (induction s rule: from_hex.induct) (simp_all add: hex_value_upper split: option.splits)

lemma decrypt_upper: "decrypt C key (map upper_hex blob) = decrypt C key blob"
proof -
  have 1: "from_hex (take k (map upper_hex blob)) = from_hex (take k blob)" for k
    by (simp add: take_map from_hex_upper)
  have 2: "from_hex (take k (drop j (map upper_hex blob))) = from_hex (take k (drop j blob))"
    for k j by (simp add: take_map drop_map from_hex_upper)
  have 3: "from_hex (drop j (map upper_hex blob)) = from_hex (drop j blob)" for j
    by (simp add: drop_map from_hex_upper)
  show ?thesis unfolding decrypt_def Let_def 1 2 3 by simp
qed

lemma from_hex_append_junk:
  "even (length s) \<Longrightarrow> from_hex junk = [] \<Longrightarrow> from_hex (s @ junk) = from_hex s"
  by (induction s rule: from_hex.induct) (simp_all split: option.splits)

lemma decrypt_append_junk:
  assumes "64 \<le> length blob" "even (length blob)" "even (length junk)" "from_hex junk = []"
  shows "decrypt C key (blob @ junk) = decrypt C key blob"
proof -
  have e: "even (length (drop 64 blob))" using assms(1,2) by simp
  have "from_hex (drop 64 blob @ junk) = from_hex (drop 64 blob)"
    using e assms(4) by (rule from_hex_append_junk)
  with assms e show ?thesis
    by (simp add: decrypt_def Let_def IV_LENGTH_def AUTH_TAG_LENGTH_def)
qed

lemma to_hex_inject: "to_hex a = to_hex b \<Longrightarrow> a = b"
proof -
  assume "to_hex a = to_hex b"
  then have "from_hex (to_hex a) = from_hex (to_hex b)" by simp
  then show "a = b" by (simp add: from_hex_to_hex)
qed

lemma decrypt_is_decipher_verdict:
  assumes "length iv = IV_LENGTH" "length tag = AUTH_TAG_LENGTH"
  shows "decrypt C key (to_hex iv @ to_hex tag @ to_hex ct)
     = (case unseal C key iv ct tag of
          None \<Rightarrow> Inl CipherError
        | Some pt \<Rightarrow> Inr (utf8_string pt))"
  using assms by (simp add: decrypt_def length_to_hex from_hex_to_hex Let_def)

lemma encrypt_embeds_nonce:
  assumes "length iv = IV_LENGTH" "length iv' = IV_LENGTH"
    and "encrypt C key iv p = Inr b" "encrypt C key iv' p' = Inr b'" "b = b'"
  shows "iv = iv'"
proof -
  from assms(3) obtain ct tag where b: "b = to_hex iv @ to_hex tag @ to_hex ct"
    by (auto simp: encrypt_def split: option.splits)
  from assms(4) obtain ct' tag' where b': "b' = to_hex iv' @ to_hex tag' @ to_hex ct'"
    by (auto simp: encrypt_def split: option.splits)
  from b b' assms(1,2,5) have "to_hex iv = to_hex iv'"
    by (simp add: length_to_hex)
  then show ?thesis by (rule to_hex_inject)
qed

lemma nines_runs:
  "encrypt test_cipher test_key test_iv ''9999'' = Inr nines_blob"
  "decrypt test_cipher test_key nines_blob = Inr ''9999''"
  "decrypt test_cipher test_key
     ''09090909090909090909090909090909040404040404040404040404040404043A3a3a3a''
     = Inr ''9999''"
  "decrypt test_cipher test_key (nines_blob @ ''zz'') = Inr ''9999''"
  "nines_blob \<noteq> ''09090909090909090909090909090909040404040404040404040404040404043A3a3a3a''"
  "unseal test_cipher test_key test_iv [58, 58, 58, 58] (replicate 16 5) = None"
  "encrypt test_cipher test_key (replicate 16 1) ''9999''
     = Inr ''01010101010101010101010101010101040404040404040404040404040404043a3a3a3a''"
  by code_simp+

text \<open>
  Claim C6, as the code has it. Under the 32-byte key and a 16-byte nonce, with a
  cipher that works, \<open>encrypt\<close> returns the hex of the nonce, of the 16-byte tag and of
  the ciphertext, in this order, and \<open>decrypt\<close> of that blob returns the plaintext: the
  blob and the key are all \<open>decrypt\<close> needs. The nonce is the one drawn for the call,
  and two calls with different nonces return different blobs. On a blob of that layout
  (the hex of a 16-byte nonce, of a 16-byte tag and of a ciphertext) \<open>decrypt\<close> hands
  the three to the decipher and its outcome is the decipher's: it throws when the
  decipher refuses them and returns no plaintext then. A change of the blob that does
  not change the decoded bytes is not noticed: with the hex letters in upper case, or,
  for a blob of even length and at least 64 characters, with a text of even length
  appended that does not begin with a hex pair, \<open>decrypt\<close> gives what it gives on the
  blob.
\<close>

theorem decrypt_outcome_is_the_deciphers:
  "(cipher_correct C \<and> length key = 32 \<and> length iv = IV_LENGTH
      \<longrightarrow> (\<exists>ct tag. seal C key iv (utf8_bytes p) = Some (ct, tag)
            \<and> length tag = AUTH_TAG_LENGTH
            \<and> encrypt C key iv p = Inr (to_hex iv @ to_hex tag @ to_hex ct)
            \<and> decrypt C key (to_hex iv @ to_hex tag @ to_hex ct) = Inr p))
   \<and> (length nonce = IV_LENGTH \<and> length tag' = AUTH_TAG_LENGTH
      \<longrightarrow> decrypt C key (to_hex nonce @ to_hex tag' @ to_hex ct')
            = (case unseal C key nonce ct' tag' of
                 None \<Rightarrow> Inl CipherError
               | Some pt \<Rightarrow> Inr (utf8_string pt)))
   \<and> (length iv1 = IV_LENGTH \<and> length iv2 = IV_LENGTH \<and> iv1 \<noteq> iv2
        \<and> encrypt C key iv1 p1 = Inr b1 \<and> encrypt C key iv2 p2 = Inr b2
      \<longrightarrow> b1 \<noteq> b2)
   \<and> decrypt C key (map upper_hex blob) = decrypt C key blob
   \<and> (64 \<le> length blob \<and> even (length blob) \<and> even (length junk) \<and> from_hex junk = []
      \<longrightarrow> decrypt C key (blob @ junk) = decrypt C key blob)"
proof -
  have A: "\<exists>ct tag. seal C key iv (utf8_bytes p) = Some (ct, tag)
            \<and> length tag = AUTH_TAG_LENGTH
            \<and> encrypt C key iv p = Inr (to_hex iv @ to_hex tag @ to_hex ct)
            \<and> decrypt C key (to_hex iv @ to_hex tag @ to_hex ct) = Inr p"
    if h: "cipher_correct C \<and> length key = 32 \<and> length iv = IV_LENGTH"
  proof -
    from h obtain ct tag where
      s: "seal C key iv (utf8_bytes p) = Some (ct, tag)" and l: "length tag = AUTH_TAG_LENGTH"
      and u: "unseal C key iv ct tag = Some (utf8_bytes p)"
      unfolding cipher_correct_def by blast
    have e: "encrypt C key iv p = Inr (to_hex iv @ to_hex tag @ to_hex ct)"
      by (simp add: encrypt_def s)
    from h l have "decrypt C key (to_hex iv @ to_hex tag @ to_hex ct) = Inr p"
      by (simp add: decrypt_is_decipher_verdict u utf8_roundtrip)
    with s l e show ?thesis by blast
  qed
  have B: "length nonce = IV_LENGTH \<and> length tag' = AUTH_TAG_LENGTH
      \<longrightarrow> decrypt C key (to_hex nonce @ to_hex tag' @ to_hex ct')
            = (case unseal C key nonce ct' tag' of
                 None \<Rightarrow> Inl CipherError
               | Some pt \<Rightarrow> Inr (utf8_string pt))"
    using decrypt_is_decipher_verdict by blast
  have N: "length iv1 = IV_LENGTH \<and> length iv2 = IV_LENGTH \<and> iv1 \<noteq> iv2
        \<and> encrypt C key iv1 p1 = Inr b1 \<and> encrypt C key iv2 p2 = Inr b2
      \<longrightarrow> b1 \<noteq> b2"
    using encrypt_embeds_nonce [of iv1 iv2 C key p1 b1 p2 b2] by blast
  have U: "decrypt C key (map upper_hex blob) = decrypt C key blob"
    by (rule decrypt_upper)
  have J: "64 \<le> length blob \<and> even (length blob) \<and> even (length junk) \<and> from_hex junk = []
      \<longrightarrow> decrypt C key (blob @ junk) = decrypt C key blob"
    using decrypt_append_junk by blast
  from A B N U J show ?thesis by blast
qed

theorem decrypt_outcome_is_the_deciphers_witness:
  "(\<exists>ct tag. seal test_cipher test_key test_iv (utf8_bytes ''9999'') = Some (ct, tag)
       \<and> length tag = AUTH_TAG_LENGTH
       \<and> encrypt test_cipher test_key test_iv ''9999''
           = Inr (to_hex test_iv @ to_hex tag @ to_hex ct)
       \<and> decrypt test_cipher test_key (to_hex test_iv @ to_hex tag @ to_hex ct) = Inr ''9999'')
   \<and> decrypt test_cipher test_key
        (to_hex test_iv @ to_hex (replicate 16 5) @ to_hex [58, 58, 58, 58]) = Inl CipherError
   \<and> nines_blob \<noteq> ''01010101010101010101010101010101040404040404040404040404040404043a3a3a3a''
   \<and> decrypt test_cipher test_key (map upper_hex nines_blob) = Inr ''9999''
   \<and> decrypt test_cipher test_key (nines_blob @ ''zz'') = Inr ''9999''"
proof -
  note T = decrypt_outcome_is_the_deciphers
             [of test_cipher test_key test_iv "''9999''" test_iv "replicate 16 5"
                 "[58, 58, 58, 58]" test_iv "replicate 16 1" "''9999''" nines_blob
                 "''9999''"
                 "''01010101010101010101010101010101040404040404040404040404040404043a3a3a3a''"
                 nines_blob "''zz''"]
  have h1: "cipher_correct test_cipher \<and> length test_key = 32 \<and> length test_iv = IV_LENGTH"
    by (simp add: test_cipher_correct test_key_def test_iv_def IV_LENGTH_def)
  have h2: "length test_iv = IV_LENGTH \<and> length (replicate 16 (5 :: byte)) = AUTH_TAG_LENGTH"
    by (simp add: test_iv_def IV_LENGTH_def AUTH_TAG_LENGTH_def)
  have h3: "length test_iv = IV_LENGTH \<and> length (replicate 16 (1 :: byte)) = IV_LENGTH
        \<and> test_iv \<noteq> replicate 16 1"
    by (simp add: test_iv_def IV_LENGTH_def)
  have h5: "64 \<le> length nines_blob \<and> even (length nines_blob) \<and> even (length ''zz'')
        \<and> from_hex ''zz'' = []"
    by (simp add: nines_blob_def hex_value_def)
  from T h1 have 1: "\<exists>ct tag. seal test_cipher test_key test_iv (utf8_bytes ''9999'') = Some (ct, tag)
       \<and> length tag = AUTH_TAG_LENGTH
       \<and> encrypt test_cipher test_key test_iv ''9999''
           = Inr (to_hex test_iv @ to_hex tag @ to_hex ct)
       \<and> decrypt test_cipher test_key (to_hex test_iv @ to_hex tag @ to_hex ct) = Inr ''9999''"
    by blast
  from T h2 nines_runs(6) have 2: "decrypt test_cipher test_key
        (to_hex test_iv @ to_hex (replicate 16 5) @ to_hex [58, 58, 58, 58]) = Inl CipherError"
    by simp
  from T h3 nines_runs(1,7) have 3:
    "nines_blob \<noteq> ''01010101010101010101010101010101040404040404040404040404040404043a3a3a3a''"
    by blast
  from T nines_runs(2) have 4: "decrypt test_cipher test_key (map upper_hex nines_blob) = Inr ''9999''"
    by simp
  from T h5 nines_runs(2) have 5: "decrypt test_cipher test_key (nines_blob @ ''zz'') = Inr ''9999''"
    by simp
  from 1 2 3 4 5 show ?thesis by blast
qed

text \<open>
  The claim C6 as stated fails in its tamper clause: the blob of the PIN 9999 has the
  payload \<open>3a3a3a3a\<close>; with the first \<open>a\<close> changed to \<open>A\<close> (one bit of one byte of the
  stored payload), or with \<open>zz\<close> appended, \<open>decrypt\<close> does not fail and returns 9999; and
  whatever the cipher, the blob in upper case decrypts as the blob does.
\<close>

theorem changed_blob_still_decrypts:
  "encrypt test_cipher test_key test_iv ''9999'' = Inr nines_blob
   \<and> nines_blob \<noteq> ''09090909090909090909090909090909040404040404040404040404040404043A3a3a3a''
   \<and> decrypt test_cipher test_key
        ''09090909090909090909090909090909040404040404040404040404040404043A3a3a3a''
       = Inr ''9999''
   \<and> decrypt test_cipher test_key (nines_blob @ ''zz'') = Inr ''9999''
   \<and> (\<forall>C key blob. decrypt C key (map upper_hex blob) = decrypt C key blob)"
  by (simp add: nines_runs decrypt_upper)

subsection \<open>Reading a missing or corrupt store\<close>

text \<open>
  Claim C10: when the store file is missing, or cannot be read or parsed, \<open>loadStorage\<close>
  returns the empty store \<open>{ codes: [] }\<close>, \<open>getAllCodes\<close> returns the empty list and
  \<open>getCode\<close> returns \<open>null\<close> for every slot; none of them throws.
\<close>

theorem reads_of_missing_or_corrupt_store:
  assumes "storageFile fs = Missing \<or> storageFile fs = Unreadable \<or> storageFile fs = Unparseable"
  shows "loadStorage fs = Storage [] \<and> getAllCodes fs = Inr [] \<and> getCode C key s fs = Inr None"
  using assms by (auto simp: loadStorage_def getAllCodes_def getCode_def)

theorem reads_of_missing_or_corrupt_store_witness:
  "loadStorage \<lparr>storageFile = Unparseable, nextWrite = Written\<rparr> = Storage []
   \<and> getAllCodes \<lparr>storageFile = Unparseable, nextWrite = Written\<rparr> = Inr []
   \<and> getCode test_cipher test_key 3 \<lparr>storageFile = Unparseable, nextWrite = Written\<rparr> = Inr None
   \<and> getAllCodes \<lparr>storageFile = Missing, nextWrite = Refused\<rparr> = Inr []"
  using reads_of_missing_or_corrupt_store
          [of "\<lparr>storageFile = Unparseable, nextWrite = Written\<rparr>" test_cipher test_key 3]
        reads_of_missing_or_corrupt_store
          [of "\<lparr>storageFile = Missing, nextWrite = Refused\<rparr>" test_cipher test_key 3]
  by simp

subsection \<open>The listing and the secrets\<close>

lemma listing_simps [simp]:
  "listing [] = []" "listing (c # cs) = (slot c, name c) # listing cs"
  "listing (cs @ ds) = listing cs @ listing ds"
  by (simp_all add: listing_def)

lemma listing_filter: "listing (filter (\<lambda>c. slot c \<noteq> s) cs) = filter (\<lambda>x. fst x \<noteq> s) (listing cs)"
  by (induction cs) simp_all

lemma listing_insort:
  "listing (insort_key slot c cs) = insort_key fst (slot c, name c) (listing cs)"
  by (induction cs) simp_all

lemma listing_sort: "listing (sort_key slot cs) = sort_key fst (listing cs)"
  by (induction cs) (simp_all add: listing_insort)

lemma getAllCodes_listing:
  "getAllCodes fs = (case loadStorage fs of OtherJson \<Rightarrow> Inl TypeError | Storage cs \<Rightarrow> Inr (listing cs))"
  by (simp add: getAllCodes_def listing_def split: json_value.splits)

lemma saveCode_listing:
  assumes "valid_pin p" "valid_pin p'"
    and "seal C key iv (utf8_bytes p) \<noteq> None" "seal C key iv' (utf8_bytes p') \<noteq> None"
    and "nextWrite fs = nextWrite fs'" "getAllCodes fs = getAllCodes fs'"
  shows "getAllCodes (snd (saveCode C key iv s nm p fs))
           = getAllCodes (snd (saveCode C key iv' s nm p' fs'))
         \<and> nextWrite (snd (saveCode C key iv s nm p fs))
           = nextWrite (snd (saveCode C key iv' s nm p' fs'))"
proof (cases "loadStorage fs")
  case OtherJson
  with assms(6) have "loadStorage fs' = OtherJson"
    by (auto simp: getAllCodes_listing split: json_value.splits)
  with OtherJson assms show ?thesis by (simp add: saveCode_def)
next
  case (Storage cs)
  with assms(6) obtain cs' where s': "loadStorage fs' = Storage cs'" and l: "listing cs = listing cs'"
    by (auto simp: getAllCodes_listing split: json_value.splits)
  from assms(3) obtain b where b: "encrypt C key iv p = Inr b"
    by (auto simp: encrypt_def)
  from assms(4) obtain b' where b': "encrypt C key iv' p' = Inr b'"
    by (auto simp: encrypt_def)
  show ?thesis
  proof (cases "nextWrite fs")
    case Written
    with assms(5) have "nextWrite fs' = Written" by simp
    with Written Storage s' b b' assms(1,2) l show ?thesis
      by (simp add: saveCode_def saveStorage_def getAllCodes_listing loadStorage_def
            listing_sort listing_filter)
  next
    case Refused
    with assms(5) have "nextWrite fs' = Refused" by simp
    with Refused Storage s' b b' assms show ?thesis
      by (simp add: saveCode_def saveStorage_def)
  next
    case Truncated
    with assms(5) have "nextWrite fs' = Truncated" by simp
    with Truncated Storage s' b b' assms(1,2) show ?thesis
      by (simp add: saveCode_def saveStorage_def getAllCodes_listing loadStorage_def)
  qed
qed

lemma saveCodes_listing:
  assumes "map (\<lambda>(iv, s, nm, p). (s, nm)) ops = map (\<lambda>(iv, s, nm, p). (s, nm)) ops'"
    and "list_all (\<lambda>(iv, s, nm, p). valid_pin p \<and> seal C key iv (utf8_bytes p) \<noteq> None) ops"
    and "list_all (\<lambda>(iv, s, nm, p). valid_pin p \<and> seal C key iv (utf8_bytes p) \<noteq> None) ops'"
    and "nextWrite fs = nextWrite fs'" "getAllCodes fs = getAllCodes fs'"
  shows "getAllCodes (saveCodes C key ops fs) = getAllCodes (saveCodes C key ops' fs')"
  using assms
proof (induction ops arbitrary: ops' fs fs')
  case Nil
  then show ?case by simp
next
  case (Cons op ops)
  obtain iv s nm p where op: "op = (iv, s, nm, p)" by (cases op) auto
  from Cons.prems(1) obtain op' rest where o': "ops' = op' # rest" by (cases ops') auto
  obtain iv' s' nm' p' where op': "op' = (iv', s', nm', p')" by (cases op') auto
  from Cons.prems(1) op o' op' have eq: "s' = s" "nm' = nm"
    and m: "map (\<lambda>(iv, s, nm, p). (s, nm)) ops = map (\<lambda>(iv, s, nm, p). (s, nm)) rest"
    by simp_all
  from Cons.prems(2,3) op o' op' have v: "valid_pin p" "valid_pin p'"
    "seal C key iv (utf8_bytes p) \<noteq> None" "seal C key iv' (utf8_bytes p') \<noteq> None"
    and r: "list_all (\<lambda>(iv, s, nm, p). valid_pin p \<and> seal C key iv (utf8_bytes p) \<noteq> None) ops"
      "list_all (\<lambda>(iv, s, nm, p). valid_pin p \<and> seal C key iv (utf8_bytes p) \<noteq> None) rest"
    by simp_all
  from saveCode_listing [OF v Cons.prems(4,5), of s nm]
  have st: "getAllCodes (snd (saveCode C key iv s nm p fs))
           = getAllCodes (snd (saveCode C key iv' s nm p' fs'))"
    and wr: "nextWrite (snd (saveCode C key iv s nm p fs))
           = nextWrite (snd (saveCode C key iv' s nm p' fs'))" by simp_all
  from Cons.IH [OF m r wr st] op o' op' eq show ?case by simp
qed

lemma valid_pin_simps: "valid_pin ''4321''" "valid_pin ''87654321''" "\<not> valid_pin ''abc''"
  "\<not> valid_pin ''123''" "\<not> valid_pin ''123456789''" "valid_pin ''1111''"
  by (simp_all add: valid_pin_def)

text \<open>
  Claim C9: the listing \<open>getAllCodes\<close> returns slots and names only and does not depend
  on the PINs: after two sequences of saves of the same slots and names under any valid
  PINs and nonces, from any store, the two listings are equal; and \<open>getAllCodes\<close> is
  the projection of the stored records to slot and name (it takes neither cipher nor
  key). Only \<open>getCode\<close> decrypts: for the record it finds at the slot it returns the name
  and the decryption of the secret.
\<close>

theorem listing_never_exposes_pins:
  "(map (\<lambda>(iv, s, nm, p). (s, nm)) ops = map (\<lambda>(iv, s, nm, p). (s, nm)) ops'
      \<and> list_all (\<lambda>(iv, s, nm, p). valid_pin p \<and> seal C key iv (utf8_bytes p) \<noteq> None) ops
      \<and> list_all (\<lambda>(iv, s, nm, p). valid_pin p \<and> seal C key iv (utf8_bytes p) \<noteq> None) ops'
    \<longrightarrow> getAllCodes (saveCodes C key ops fs) = getAllCodes (saveCodes C key ops' fs))
   \<and> (loadStorage fs = Storage cs \<longrightarrow> getAllCodes fs = Inr (map (\<lambda>c. (slot c, name c)) cs))
   \<and> (loadStorage fs = Storage cs \<and> find (\<lambda>c. slot c = s) cs = Some c
        \<longrightarrow> getCode C key s fs
              = (case decrypt C key (pin c) of Inl e \<Rightarrow> Inl e | Inr p \<Rightarrow> Inr (Some (name c, p))))"
  using saveCodes_listing [of ops ops' C key fs fs]
  by (auto simp: getAllCodes_def getCode_def)

theorem listing_never_exposes_pins_witness:
  "getAllCodes (saveCodes test_cipher test_key [(test_iv, 3, ''guest'', ''4321'')] (stored []))
     = getAllCodes (saveCodes test_cipher test_key
         [(replicate 16 1, 3, ''guest'', ''87654321'')] (stored []))
   \<and> getAllCodes (stored [\<lparr>slot = 3, name = ''guest'', pin = ''zz''\<rparr>]) = Inr [(3, ''guest'')]
   \<and> getCode test_cipher test_key 3
         (stored [\<lparr>slot = 3, name = ''guest'',
            pin = ''090909090909090909090909090909090404040404040404040404040404040435343332''\<rparr>])
       = Inr (Some (''guest'', ''4321''))"
proof -
  have 1: "getAllCodes (saveCodes test_cipher test_key [(test_iv, 3, ''guest'', ''4321'')] (stored []))
     = getAllCodes (saveCodes test_cipher test_key
         [(replicate 16 1, 3, ''guest'', ''87654321'')] (stored []))"
    using listing_never_exposes_pins
      [of "[(test_iv, 3, ''guest'', ''4321'')]" "[(replicate 16 1, 3, ''guest'', ''87654321'')]"
          test_cipher test_key "stored []" "[]" 3 undefined]
    by (simp add: valid_pin_simps test_cipher_def test_key_def test_iv_def)
  let ?c = "\<lparr>slot = 3, name = ''guest'',
            pin = ''090909090909090909090909090909090404040404040404040404040404040435343332''\<rparr>"
  have d: "decrypt test_cipher test_key (pin ?c) = Inr ''4321''"
    by code_simp
  have 2: "getAllCodes (stored [\<lparr>slot = 3, name = ''guest'', pin = ''zz''\<rparr>]) = Inr [(3, ''guest'')]"
    using listing_never_exposes_pins
      [of "[]" "[]" test_cipher test_key "stored [\<lparr>slot = 3, name = ''guest'', pin = ''zz''\<rparr>]"
          "[\<lparr>slot = 3, name = ''guest'', pin = ''zz''\<rparr>]" 3 "\<lparr>slot = 3, name = ''guest'', pin = ''zz''\<rparr>"]
    by (simp add: stored_def loadStorage_def)
  have 3: "getCode test_cipher test_key 3 (stored [?c]) = Inr (Some (''guest'', ''4321''))"
    using listing_never_exposes_pins
      [of "[]" "[]" test_cipher test_key "stored [?c]" "[?c]" 3 ?c] d
    by (simp add: stored_def loadStorage_def)
  from 1 2 3 show ?thesis by simp
qed

section \<open>Properties of setUserCode\<close>

lemma call_effect:
  "call drv n c w = (r, w') \<Longrightarrow>
     trace w' = trace w @ [Issued n c r] \<and> files w' = files w
     \<and> (r, net w') = exec drv (net w) n c"
  by (auto simp: call_def split: prod.splits)

lemma wait_effect:
  "trace (wait drv ms w) = trace w @ [Waited ms]" "files (wait drv ms w) = files w"
  by (simp_all add: wait_def)

lemma setUserCode_run:
  assumes "nodes drv n = Some nd" "hasUserCodeCC nd"
  shows "(\<exists>r1 r2 e w'. setUserCode drv n s code w = (Inl (DriverError e), w')
            \<and> trace w' = trace w @ [Issued n GetCapabilities r1, Issued n (Get s) r2,
                  Issued n (Set s 1 code) (Threw e)]
            \<and> files w' = files w)
       \<or> (\<exists>r1 r2 r3 v w'. (\<forall>e. r3 \<noteq> Threw e)
            \<and> setUserCode drv n s code w =
                ((case v of
                    Threw e \<Rightarrow> Inl (DriverError e)
                  | _ \<Rightarrow> if userIdStatus v = Some 1 then Inr ()
                         else Inl (SetRejected s (userIdStatus v))), w')
            \<and> trace w' = trace w @ [Issued n GetCapabilities r1, Issued n (Get s) r2,
                  Issued n (Set s 1 code) r3, Waited 5000, Issued n (Get s) v]
            \<and> files w' = files w)"
proof -
  obtain r1 w1 where c1: "call drv n GetCapabilities w = (r1, w1)" by (cases "call drv n GetCapabilities w")
  obtain r2 w2 where c2: "call drv n (Get s) w1 = (r2, w2)" by (cases "call drv n (Get s) w1")
  obtain r3 w3 where c3: "call drv n (Set s 1 code) w2 = (r3, w3)" by (cases "call drv n (Set s 1 code) w2")
  obtain v w5 where c5: "call drv n (Get s) (wait drv 5000 w3) = (v, w5)"
    by (cases "call drv n (Get s) (wait drv 5000 w3)")
  note e = call_effect [OF c1] call_effect [OF c2] call_effect [OF c3] call_effect [OF c5]
  have t3: "trace w3 = trace w @ [Issued n GetCapabilities r1, Issued n (Get s) r2,
                  Issued n (Set s 1 code) r3]" and f3: "files w3 = files w"
    using e by simp_all
  have t5: "trace w5 = trace w @ [Issued n GetCapabilities r1, Issued n (Get s) r2,
                  Issued n (Set s 1 code) r3, Waited 5000, Issued n (Get s) v]"
    and f5: "files w5 = files w"
    using e by (simp_all add: wait_effect)
  show ?thesis
  proof (cases "\<exists>e. r3 = Threw e")
    case True
    then obtain e where "r3 = Threw e" by blast
    with assms c1 c2 c3 have "setUserCode drv n s code w = (Inl (DriverError e), w3)"
      by (simp add: setUserCode_def)
    with t3 f3 \<open>r3 = Threw e\<close> show ?thesis by blast
  next
    case False
    with assms c1 c2 c3 c5 have "setUserCode drv n s code w =
                ((case v of
                    Threw e \<Rightarrow> Inl (DriverError e)
                  | _ \<Rightarrow> if userIdStatus v = Some 1 then Inr ()
                         else Inl (SetRejected s (userIdStatus v))), w5)"
      by (cases r3; cases v) (simp_all add: setUserCode_def)
    with False t5 f5 show ?thesis by blast
  qed
qed

lemma setUserCode_no_lock:
  assumes "nodes drv n = None \<or> (\<exists>nd. nodes drv n = Some nd \<and> \<not> hasUserCodeCC nd)"
  shows "snd (setUserCode drv n s code w) = w \<and> (\<exists>e. fst (setUserCode drv n s code w) = Inl e)"
  using assms by (auto simp: setUserCode_def)

lemma setUserCode_verified_only:
  assumes "setUserCode drv n s code w = (res, w')"
  shows "(res = Inr () \<longrightarrow>
            (\<exists>pre r c. trace w' = trace w @ pre
                @ [Issued n (Set s 1 code) r, Waited 5000, Issued n (Get s) (UserCodeReport 1 c)]))
       \<and> (\<forall>pre r v. trace w' = trace w @ pre
                @ [Issued n (Set s 1 code) r, Waited 5000, Issued n (Get s) v]
              \<and> userIdStatus v \<noteq> Some 1
            \<longrightarrow> (\<exists>e. res = Inl e)
                \<and> ((\<forall>e. v \<noteq> Threw e) \<longrightarrow> res = Inl (SetRejected s (userIdStatus v))))"
proof (cases "nodes drv n = None \<or> (\<exists>nd. nodes drv n = Some nd \<and> \<not> hasUserCodeCC nd)")
  case True
  from setUserCode_no_lock [OF True, of s code w] assms show ?thesis by auto
next
  case False
  then obtain nd where nd: "nodes drv n = Some nd" "hasUserCodeCC nd" by auto
  from setUserCode_run [OF nd, of s code w] assms show ?thesis
  proof (elim disjE exE conjE)
    fix r1 r2 e w''
    assume "setUserCode drv n s code w = (Inl (DriverError e), w'')"
      and "trace w'' = trace w @ [Issued n GetCapabilities r1, Issued n (Get s) r2,
                  Issued n (Set s 1 code) (Threw e)]"
    with assms show ?thesis by auto
  next
    fix r1 r2 r3 v w''
    assume a: "setUserCode drv n s code w =
                ((case v of
                    Threw e \<Rightarrow> Inl (DriverError e)
                  | _ \<Rightarrow> if userIdStatus v = Some 1 then Inr ()
                         else Inl (SetRejected s (userIdStatus v))), w'')"
      and t: "trace w'' = trace w @ [Issued n GetCapabilities r1, Issued n (Get s) r2,
                  Issued n (Set s 1 code) r3, Waited 5000, Issued n (Get s) v]"
    from a assms have w: "w'' = w'" and r: "res = (case v of
                    Threw e \<Rightarrow> Inl (DriverError e)
                  | _ \<Rightarrow> if userIdStatus v = Some 1 then Inr ()
                         else Inl (SetRejected s (userIdStatus v)))" by simp_all
    have 1: "res = Inr () \<longrightarrow>
            (\<exists>pre r c. trace w' = trace w @ pre
                @ [Issued n (Set s 1 code) r, Waited 5000, Issued n (Get s) (UserCodeReport 1 c)])"
    proof
      assume "res = Inr ()"
      with r obtain c where "v = UserCodeReport 1 c"
        by (cases v) (auto split: if_splits)
      with t w have "trace w' = trace w @ [Issued n GetCapabilities r1, Issued n (Get s) r2]
                @ [Issued n (Set s 1 code) r3, Waited 5000, Issued n (Get s) (UserCodeReport 1 c)]"
        by simp
      then show "\<exists>pre r c. trace w' = trace w @ pre
                @ [Issued n (Set s 1 code) r, Waited 5000, Issued n (Get s) (UserCodeReport 1 c)]"
        by blast
    qed
    have 2: "\<forall>pre r v'. trace w' = trace w @ pre
                @ [Issued n (Set s 1 code) r, Waited 5000, Issued n (Get s) v']
              \<and> userIdStatus v' \<noteq> Some 1
            \<longrightarrow> (\<exists>e. res = Inl e)
                \<and> ((\<forall>e. v' \<noteq> Threw e) \<longrightarrow> res = Inl (SetRejected s (userIdStatus v')))"
    proof (intro allI impI)
      fix pre r v'
      assume h: "trace w' = trace w @ pre
                @ [Issued n (Set s 1 code) r, Waited 5000, Issued n (Get s) v']
              \<and> userIdStatus v' \<noteq> Some 1"
      with t w have "[Issued n GetCapabilities r1, Issued n (Get s) r2,
                  Issued n (Set s 1 code) r3, Waited 5000, Issued n (Get s) v]
          = pre @ [Issued n (Set s 1 code) r, Waited 5000, Issued n (Get s) v']" by simp
      then have "last [Issued n GetCapabilities r1, Issued n (Get s) r2,
                  Issued n (Set s 1 code) r3, Waited 5000, Issued n (Get s) v]
          = last (pre @ [Issued n (Set s 1 code) r, Waited 5000, Issued n (Get s) v'])" by simp
      then have "v' = v" by simp
      with h r show "(\<exists>e. res = Inl e)
                \<and> ((\<forall>e. v' \<noteq> Threw e) \<longrightarrow> res = Inl (SetRejected s (userIdStatus v')))"
        by (cases v) auto
    qed
    from 1 2 show ?thesis by blast
  qed
qed

lemma setUserCode_by_trace:
  assumes "setUserCode drv n s code w = (res, w')"
    and "trace w' = trace w @ pre
           @ [Issued n (Set s 1 code) r, Waited 5000, Issued n (Get s) v]"
  shows "res = (case v of
                  Threw e \<Rightarrow> Inl (DriverError e)
                | _ \<Rightarrow> if userIdStatus v = Some 1 then Inr ()
                       else Inl (SetRejected s (userIdStatus v)))"
proof (cases "nodes drv n = None \<or> (\<exists>nd. nodes drv n = Some nd \<and> \<not> hasUserCodeCC nd)")
  case True
  from setUserCode_no_lock [OF True, of s code w] assms show ?thesis by simp
next
  case False
  then obtain nd where nd: "nodes drv n = Some nd" "hasUserCodeCC nd" by auto
  from setUserCode_run [OF nd, of s code w] show ?thesis
  proof (elim disjE exE conjE)
    fix r1 r2 e w''
    assume "setUserCode drv n s code w = (Inl (DriverError e), w'')"
      and "trace w'' = trace w @ [Issued n GetCapabilities r1, Issued n (Get s) r2,
                  Issued n (Set s 1 code) (Threw e)]"
    with assms have "[Issued n GetCapabilities r1, Issued n (Get s) r2,
                  Issued n (Set s 1 code) (Threw e)]
            = pre @ [Issued n (Set s 1 code) r, Waited 5000, Issued n (Get s) v]" by simp
    then have "last [Issued n GetCapabilities r1, Issued n (Get s) r2,
                  Issued n (Set s 1 code) (Threw e)]
            = last (pre @ [Issued n (Set s 1 code) r, Waited 5000, Issued n (Get s) v])"
      by simp
    then show ?thesis by simp
  next
    fix r1 r2 r3 v' w''
    assume a: "setUserCode drv n s code w =
                ((case v' of
                    Threw e \<Rightarrow> Inl (DriverError e)
                  | _ \<Rightarrow> if userIdStatus v' = Some 1 then Inr ()
                         else Inl (SetRejected s (userIdStatus v'))), w'')"
      and "trace w'' = trace w @ [Issued n GetCapabilities r1, Issued n (Get s) r2,
                  Issued n (Set s 1 code) r3, Waited 5000, Issued n (Get s) v']"
    with assms have "[Issued n GetCapabilities r1, Issued n (Get s) r2,
                  Issued n (Set s 1 code) r3, Waited 5000, Issued n (Get s) v']
            = pre @ [Issued n (Set s 1 code) r, Waited 5000, Issued n (Get s) v]" by simp
    then have "last [Issued n GetCapabilities r1, Issued n (Get s) r2,
                  Issued n (Set s 1 code) r3, Waited 5000, Issued n (Get s) v']
            = last (pre @ [Issued n (Set s 1 code) r, Waited 5000, Issued n (Get s) v])"
      by simp
    then have vv: "v' = v" by simp
    from a assms(1) show ?thesis unfolding vv by simp
  qed
qed

lemma start_world_simps [simp]:
  "net (start_world d fs) = d" "trace (start_world d fs) = []" "files (start_world d fs) = fs"
  by (simp_all add: start_world_def)

lemma ignoring_lock_run:
  "setUserCode (sim_lock False Undefined []) 8 3 ''4321'' (start_world [] (stored []))
     = (Inl (SetRejected 3 (Some 0)),
        \<lparr>net = [],
         trace = [Issued 8 GetCapabilities (Threw ''not supported''),
                  Issued 8 (Get 3) (UserCodeReport 0 None),
                  Issued 8 (Set 3 1 ''4321'') Undefined,
                  Waited 5000,
                  Issued 8 (Get 3) (UserCodeReport 0 None)],
         files = stored []\<rparr>)"
  by (simp add: setUserCode_def call_def wait_def sim_lock_def start_world_def slot_status_def)

lemma accepting_lock_run:
  "setUserCode (sim_lock True Undefined []) 8 3 ''4321'' (start_world [] (stored []))
     = (Inr (),
        \<lparr>net = [(3, 1)],
         trace = [Issued 8 GetCapabilities (Threw ''not supported''),
                  Issued 8 (Get 3) (UserCodeReport 0 None),
                  Issued 8 (Set 3 1 ''4321'') Undefined,
                  Waited 5000,
                  Issued 8 (Get 3) (UserCodeReport 1 None)],
         files = stored []\<rparr>)"
  by (simp add: setUserCode_def call_def wait_def sim_lock_def start_world_def slot_status_def)

lemma ignoring_lock_occupied_run:
  "setUserCode (sim_lock False Undefined []) 8 3 ''4321'' (start_world [(3, 1)] (stored []))
     = (Inr (),
        \<lparr>net = [(3, 1)],
         trace = [Issued 8 GetCapabilities (Threw ''not supported''),
                  Issued 8 (Get 3) (UserCodeReport 1 None),
                  Issued 8 (Set 3 1 ''4321'') Undefined,
                  Waited 5000,
                  Issued 8 (Get 3) (UserCodeReport 1 None)],
         files = stored []\<rparr>)"
  by (simp add: setUserCode_def call_def wait_def sim_lock_def start_world_def slot_status_def)

text \<open>
  Claim C1, as the code has it: for every device, slot and PIN, \<open>setUserCode\<close> returns
  normally only when the read of the slot that follows the \<open>set\<close> call and the 5 s wait
  reports status 1 (Occupied); when that read reports anything else the call throws, the
  rejection error when the read returned. The test is of that status alone: whenever
  the re-read reports Occupied the call returns normally. So when the re-read answers
  what the read before the \<open>set\<close> answered (the device has ignored the \<open>set\<close>), the call
  is rejected if the slot read not Occupied and is confirmed if it read Occupied.
\<close>

theorem setUserCode_confirms_on_status_alone:
  assumes "setUserCode drv n s code w = (res, w')"
  shows "(res = Inr () \<longrightarrow>
            (\<exists>pre r c. trace w' = trace w @ pre
                @ [Issued n (Set s 1 code) r, Waited 5000, Issued n (Get s) (UserCodeReport 1 c)]))
       \<and> (\<forall>pre r v. trace w' = trace w @ pre
                @ [Issued n (Set s 1 code) r, Waited 5000, Issued n (Get s) v]
              \<and> userIdStatus v \<noteq> Some 1
            \<longrightarrow> (\<exists>e. res = Inl e)
                \<and> ((\<forall>e. v \<noteq> Threw e) \<longrightarrow> res = Inl (SetRejected s (userIdStatus v))))
       \<and> (\<forall>pre r v. trace w' = trace w @ pre
                @ [Issued n (Set s 1 code) r, Waited 5000, Issued n (Get s) v]
              \<and> userIdStatus v = Some 1
            \<longrightarrow> res = Inr ())
       \<and> (\<forall>r1 r2 r3. trace w' = trace w
                @ [Issued n GetCapabilities r1, Issued n (Get s) r2,
                   Issued n (Set s 1 code) r3, Waited 5000, Issued n (Get s) r2]
            \<longrightarrow> res = (case r2 of
                         Threw e \<Rightarrow> Inl (DriverError e)
                       | _ \<Rightarrow> if userIdStatus r2 = Some 1 then Inr ()
                              else Inl (SetRejected s (userIdStatus r2))))"
proof -
  have 3: "\<forall>pre r v. trace w' = trace w @ pre
                @ [Issued n (Set s 1 code) r, Waited 5000, Issued n (Get s) v]
              \<and> userIdStatus v = Some 1
            \<longrightarrow> res = Inr ()"
  proof (intro allI impI)
    fix pre r v
    assume h: "trace w' = trace w @ pre
                @ [Issued n (Set s 1 code) r, Waited 5000, Issued n (Get s) v]
              \<and> userIdStatus v = Some 1"
    then have t: "trace w' = trace w @ pre
                @ [Issued n (Set s 1 code) r, Waited 5000, Issued n (Get s) v]"
      and o: "userIdStatus v = Some 1" by simp_all
    from setUserCode_by_trace [OF assms t] o show "res = Inr ()" by (cases v) simp_all
  qed
  have 4: "\<forall>r1 r2 r3. trace w' = trace w
                @ [Issued n GetCapabilities r1, Issued n (Get s) r2,
                   Issued n (Set s 1 code) r3, Waited 5000, Issued n (Get s) r2]
            \<longrightarrow> res = (case r2 of
                         Threw e \<Rightarrow> Inl (DriverError e)
                       | _ \<Rightarrow> if userIdStatus r2 = Some 1 then Inr ()
                              else Inl (SetRejected s (userIdStatus r2)))"
  proof (intro allI impI)
    fix r1 r2 r3
    assume "trace w' = trace w
                @ [Issued n GetCapabilities r1, Issued n (Get s) r2,
                   Issued n (Set s 1 code) r3, Waited 5000, Issued n (Get s) r2]"
    then have "trace w' = trace w @ [Issued n GetCapabilities r1, Issued n (Get s) r2]
                @ [Issued n (Set s 1 code) r3, Waited 5000, Issued n (Get s) r2]" by simp
    from setUserCode_by_trace [OF assms this]
    show "res = (case r2 of
                   Threw e \<Rightarrow> Inl (DriverError e)
                 | _ \<Rightarrow> if userIdStatus r2 = Some 1 then Inr ()
                        else Inl (SetRejected s (userIdStatus r2)))" .
  qed
  from setUserCode_verified_only [OF assms] 3 4 show ?thesis by blast
qed

theorem setUserCode_confirms_on_status_alone_witness:
  "fst (setUserCode (sim_lock True Undefined []) 8 3 ''4321'' (start_world [] (stored []))) = Inr ()
   \<and> (\<exists>pre r c. trace (snd (setUserCode (sim_lock True Undefined []) 8 3 ''4321''
                              (start_world [] (stored []))))
          = pre @ [Issued 8 (Set 3 1 ''4321'') r, Waited 5000,
                   Issued 8 (Get 3) (UserCodeReport 1 c)])
   \<and> fst (setUserCode (sim_lock False Undefined []) 8 3 ''4321'' (start_world [] (stored [])))
       = Inl (SetRejected 3 (Some 0))
   \<and> fst (setUserCode (sim_lock False Undefined []) 8 3 ''4321''
            (start_world [(3, 1)] (stored [])))
       = Inr ()"
proof -
  have a: "\<exists>pre r c. trace (snd (setUserCode (sim_lock True Undefined []) 8 3 ''4321''
                              (start_world [] (stored []))))
          = pre @ [Issued 8 (Set 3 1 ''4321'') r, Waited 5000,
                   Issued 8 (Get 3) (UserCodeReport 1 c)]"
    using setUserCode_confirms_on_status_alone [OF accepting_lock_run]
    by (simp add: accepting_lock_run)
  have "\<forall>r1 r2 r3.
          [Issued 8 GetCapabilities (Threw ''not supported''),
           Issued 8 (Get 3) (UserCodeReport 0 None),
           Issued 8 (Set 3 1 ''4321'') Undefined, Waited 5000,
           Issued 8 (Get 3) (UserCodeReport 0 None)]
            = [Issued 8 GetCapabilities r1, Issued 8 (Get 3) r2,
               Issued 8 (Set 3 1 ''4321'') r3, Waited 5000, Issued 8 (Get 3) r2]
        \<longrightarrow> fst (setUserCode (sim_lock False Undefined []) 8 3 ''4321''
                   (start_world [] (stored [])))
             = (case r2 of
                  Threw e \<Rightarrow> Inl (DriverError e)
                | _ \<Rightarrow> if userIdStatus r2 = Some 1 then Inr ()
                       else Inl (SetRejected 3 (userIdStatus r2)))"
    using setUserCode_confirms_on_status_alone [OF ignoring_lock_run]
    by (simp add: ignoring_lock_run)
  from this [rule_format, of "Threw ''not supported''" "UserCodeReport 0 None" Undefined]
  have b: "fst (setUserCode (sim_lock False Undefined []) 8 3 ''4321''
                   (start_world [] (stored []))) = Inl (SetRejected 3 (Some 0))"
    by simp
  have "\<forall>r1 r2 r3.
          [Issued 8 GetCapabilities (Threw ''not supported''),
           Issued 8 (Get 3) (UserCodeReport 1 None),
           Issued 8 (Set 3 1 ''4321'') Undefined, Waited 5000,
           Issued 8 (Get 3) (UserCodeReport 1 None)]
            = [Issued 8 GetCapabilities r1, Issued 8 (Get 3) r2,
               Issued 8 (Set 3 1 ''4321'') r3, Waited 5000, Issued 8 (Get 3) r2]
        \<longrightarrow> fst (setUserCode (sim_lock False Undefined []) 8 3 ''4321''
                   (start_world [(3, 1)] (stored [])))
             = (case r2 of
                  Threw e \<Rightarrow> Inl (DriverError e)
                | _ \<Rightarrow> if userIdStatus r2 = Some 1 then Inr ()
                       else Inl (SetRejected 3 (userIdStatus r2)))"
    using setUserCode_confirms_on_status_alone [OF ignoring_lock_occupied_run]
    by (simp add: ignoring_lock_occupied_run)
  from this [rule_format, of "Threw ''not supported''" "UserCodeReport 1 None" Undefined]
  have c: "fst (setUserCode (sim_lock False Undefined []) 8 3 ''4321''
                   (start_world [(3, 1)] (stored []))) = Inr ()"
    by simp
  from a b c show ?thesis by (simp add: accepting_lock_run)
qed

text \<open>
  The claim C1 as stated fails in its last clause: slot 3 of the lock is Occupied, the
  lock ignores the \<open>set\<close> of 4321 on it (its state after the call is its state before),
  and \<open>setUserCode\<close> returns normally.
\<close>

theorem ignored_set_on_occupied_slot_is_confirmed:
  "setUserCode (sim_lock False Undefined []) 8 3 ''4321'' (start_world [(3, 1)] (stored []))
     = (Inr (),
        \<lparr>net = [(3, 1)],
         trace = [Issued 8 GetCapabilities (Threw ''not supported''),
                  Issued 8 (Get 3) (UserCodeReport 1 None),
                  Issued 8 (Set 3 1 ''4321'') Undefined,
                  Waited 5000,
                  Issued 8 (Get 3) (UserCodeReport 1 None)],
         files = stored []\<rparr>)
   \<and> net (start_world [(3, 1)] (stored [])) = [(3, 1)]"
  by (simp add: setUserCode_def call_def wait_def sim_lock_def start_world_def slot_status_def)

lemma call_files:
  "call drv n c (w\<lparr>files := f\<rparr>) = (case call drv n c w of (r, w') \<Rightarrow> (r, w'\<lparr>files := f\<rparr>))"
  by (simp add: call_def split: prod.splits)

lemma wait_files: "wait drv ms (w\<lparr>files := f\<rparr>) = (wait drv ms w)\<lparr>files := f\<rparr>"
  by (simp add: wait_def)

lemma setUserCode_files:
  "setUserCode drv n s code (w\<lparr>files := f\<rparr>)
     = (case setUserCode drv n s code w of (r, w') \<Rightarrow> (r, w'\<lparr>files := f\<rparr>))"
  by (simp add: setUserCode_def call_files wait_files
        split: option.splits prod.splits response.splits)

lemma setUserCode_keeps_files: "files (snd (setUserCode drv n s code w)) = files w"
proof (cases "nodes drv n = None \<or> (\<exists>nd. nodes drv n = Some nd \<and> \<not> hasUserCodeCC nd)")
  case True
  from setUserCode_no_lock [OF True, of s code w] show ?thesis by simp
next
  case False
  then obtain nd where nd: "nodes drv n = Some nd" "hasUserCodeCC nd" by auto
  from setUserCode_run [OF nd, of s code w] show ?thesis by auto
qed

text \<open>
  Claim C2, as the code has it: when the re-read shows the slot not Occupied,
  \<open>setUserCode\<close> throws one rejection error, carrying the slot and the status read; the
  whole call is the same whatever the code store holds, which it neither reads nor
  writes, so a PIN the store already holds in another slot is not told apart. When the
  re-read throws, the driver's error is rethrown, which is not the rejection error.
\<close>

theorem setUserCode_rejection_is_blind_to_store:
  assumes "setUserCode drv n s code w = (res, w')"
  shows "setUserCode drv n s code (w\<lparr>files := f\<rparr>) = (res, w'\<lparr>files := f\<rparr>)
       \<and> (\<forall>pre r v. trace w' = trace w @ pre
                @ [Issued n (Set s 1 code) r, Waited 5000, Issued n (Get s) v]
            \<longrightarrow> (case v of
                   Threw e \<Rightarrow> res = Inl (DriverError e)
                 | _ \<Rightarrow> userIdStatus v \<noteq> Some 1 \<longrightarrow> res = Inl (SetRejected s (userIdStatus v))))"
proof -
  have 1: "setUserCode drv n s code (w\<lparr>files := f\<rparr>) = (res, w'\<lparr>files := f\<rparr>)"
    using assms by (simp add: setUserCode_files)
  have 2: "\<forall>pre r v. trace w' = trace w @ pre
                @ [Issued n (Set s 1 code) r, Waited 5000, Issued n (Get s) v]
            \<longrightarrow> (case v of
                   Threw e \<Rightarrow> res = Inl (DriverError e)
                 | _ \<Rightarrow> userIdStatus v \<noteq> Some 1 \<longrightarrow> res = Inl (SetRejected s (userIdStatus v)))"
  proof (intro allI impI)
    fix pre r v
    assume t: "trace w' = trace w @ pre
                @ [Issued n (Set s 1 code) r, Waited 5000, Issued n (Get s) v]"
    show "case v of
            Threw e \<Rightarrow> res = Inl (DriverError e)
          | _ \<Rightarrow> userIdStatus v \<noteq> Some 1 \<longrightarrow> res = Inl (SetRejected s (userIdStatus v))"
    proof (cases "nodes drv n = None \<or> (\<exists>nd. nodes drv n = Some nd \<and> \<not> hasUserCodeCC nd)")
      case True
      from setUserCode_no_lock [OF True, of s code w] assms t show ?thesis by simp
    next
      case False
      then obtain nd where nd: "nodes drv n = Some nd" "hasUserCodeCC nd" by auto
      from setUserCode_run [OF nd, of s code w] show ?thesis
      proof (elim disjE exE conjE)
        fix r1 r2 e w''
        assume "setUserCode drv n s code w = (Inl (DriverError e), w'')"
          and "trace w'' = trace w @ [Issued n GetCapabilities r1, Issued n (Get s) r2,
                  Issued n (Set s 1 code) (Threw e)]"
        with assms t have "[Issued n GetCapabilities r1, Issued n (Get s) r2,
                  Issued n (Set s 1 code) (Threw e)]
            = pre @ [Issued n (Set s 1 code) r, Waited 5000, Issued n (Get s) v]" by simp
        then have "last [Issued n GetCapabilities r1, Issued n (Get s) r2,
                  Issued n (Set s 1 code) (Threw e)]
            = last (pre @ [Issued n (Set s 1 code) r, Waited 5000, Issued n (Get s) v])"
          by simp
        then show ?thesis by simp
      next
        fix r1 r2 r3 v' w''
        assume a: "setUserCode drv n s code w =
                ((case v' of
                    Threw e \<Rightarrow> Inl (DriverError e)
                  | _ \<Rightarrow> if userIdStatus v' = Some 1 then Inr ()
                         else Inl (SetRejected s (userIdStatus v'))), w'')"
          and t': "trace w'' = trace w @ [Issued n GetCapabilities r1, Issued n (Get s) r2,
                  Issued n (Set s 1 code) r3, Waited 5000, Issued n (Get s) v']"
        with assms t have "[Issued n GetCapabilities r1, Issued n (Get s) r2,
                  Issued n (Set s 1 code) r3, Waited 5000, Issued n (Get s) v']
            = pre @ [Issued n (Set s 1 code) r, Waited 5000, Issued n (Get s) v]" by simp
        then have "last [Issued n GetCapabilities r1, Issued n (Get s) r2,
                  Issued n (Set s 1 code) r3, Waited 5000, Issued n (Get s) v']
            = last (pre @ [Issued n (Set s 1 code) r, Waited 5000, Issued n (Get s) v])"
          by simp
        then have "v' = v" by simp
        with a assms show ?thesis by (cases v) auto
      qed
    qed
  qed
  from 1 2 show ?thesis by blast
qed

lemma decrypt_family_1111: "decrypt test_cipher test_key (pin family_1111) = Inr ''1111''"
  by code_simp

lemma ignoring_lock_run_1111:
  "setUserCode (sim_lock False Undefined []) 8 2 ''1111'' (start_world [] fs)
     = (Inl (SetRejected 2 (Some 0)),
        \<lparr>net = [],
         trace = [Issued 8 GetCapabilities (Threw ''not supported''),
                  Issued 8 (Get 2) (UserCodeReport 0 None),
                  Issued 8 (Set 2 1 ''1111'') Undefined,
                  Waited 5000,
                  Issued 8 (Get 2) (UserCodeReport 0 None)],
         files = fs\<rparr>)"
  by (simp add: setUserCode_def call_def wait_def sim_lock_def start_world_def slot_status_def)

text \<open>
  The claim C2 as stated fails: with the PIN 1111 stored under slot 5, and with an empty
  store, a lock that ignores the \<open>set\<close> of 1111 on slot 2 gets the same rejection, where
  the specification's classification tells \<open>RejectedLikelyDuplicate\<close> from
  \<open>RejectedUnknownReason\<close>.
\<close>

theorem duplicate_pin_gets_the_same_rejection:
  "fst (setUserCode (sim_lock False Undefined []) 8 2 ''1111''
          (start_world [] (stored [family_1111]))) = Inl (SetRejected 2 (Some 0))
   \<and> fst (setUserCode (sim_lock False Undefined []) 8 2 ''1111''
          (start_world [] (stored []))) = Inl (SetRejected 2 (Some 0))
   \<and> spec_VerifiedSetResult test_cipher test_key (stored [family_1111]) 2 ''1111''
        (UserCodeReport 0 None) = RejectedLikelyDuplicate
   \<and> spec_VerifiedSetResult test_cipher test_key (stored []) 2 ''1111''
        (UserCodeReport 0 None) = RejectedUnknownReason"
  by (simp add: ignoring_lock_run_1111 spec_VerifiedSetResult_def spec_holds_pin_elsewhere_def
        stored_def loadStorage_def decrypt_family_1111)
    (simp add: family_1111_def)

lemma sleeping_lock_run:
  "setUserCode (sim_lock True Undefined [2]) 8 2 ''1111'' (start_world [] fs)
     = (Inl (DriverError ''timeout''),
        \<lparr>net = [(2, 1)],
         trace = [Issued 8 GetCapabilities (Threw ''not supported''),
                  Issued 8 (Get 2) (Threw ''timeout''),
                  Issued 8 (Set 2 1 ''1111'') Undefined,
                  Waited 5000,
                  Issued 8 (Get 2) (Threw ''timeout'')],
         files = fs\<rparr>)"
  by (simp add: setUserCode_def call_def wait_def sim_lock_def start_world_def slot_status_def)

theorem setUserCode_rejection_is_blind_to_store_witness:
  "setUserCode (sim_lock False Undefined []) 8 2 ''1111'' (start_world [] (stored [family_1111]))
     = (Inl (SetRejected 2 (Some 0)),
        \<lparr>net = [],
         trace = [Issued 8 GetCapabilities (Threw ''not supported''),
                  Issued 8 (Get 2) (UserCodeReport 0 None),
                  Issued 8 (Set 2 1 ''1111'') Undefined,
                  Waited 5000,
                  Issued 8 (Get 2) (UserCodeReport 0 None)],
         files = stored [family_1111]\<rparr>)
   \<and> fst (setUserCode (sim_lock True Undefined [2]) 8 2 ''1111'' (start_world [] (stored [])))
       = Inl (DriverError ''timeout'')"
proof -
  have a: "setUserCode (sim_lock False Undefined []) 8 2 ''1111''
             ((start_world [] (stored []))\<lparr>files := stored [family_1111]\<rparr>)
     = (Inl (SetRejected 2 (Some 0)),
        \<lparr>net = [],
         trace = [Issued 8 GetCapabilities (Threw ''not supported''),
                  Issued 8 (Get 2) (UserCodeReport 0 None),
                  Issued 8 (Set 2 1 ''1111'') Undefined,
                  Waited 5000,
                  Issued 8 (Get 2) (UserCodeReport 0 None)],
         files = stored []\<rparr>\<lparr>files := stored [family_1111]\<rparr>)"
    using setUserCode_rejection_is_blind_to_store
            [OF ignoring_lock_run_1111 [of "stored []"], of "stored [family_1111]"]
    by simp
  have "\<forall>pre r v.
          [Issued 8 GetCapabilities (Threw ''not supported''),
           Issued 8 (Get 2) (Threw ''timeout''),
           Issued 8 (Set 2 1 ''1111'') Undefined, Waited 5000,
           Issued 8 (Get 2) (Threw ''timeout'')]
            = pre @ [Issued 8 (Set 2 1 ''1111'') r, Waited 5000, Issued 8 (Get 2) v]
        \<longrightarrow> (case v of
               Threw e \<Rightarrow> fst (setUserCode (sim_lock True Undefined [2]) 8 2 ''1111''
                              (start_world [] (stored []))) = Inl (DriverError e)
             | _ \<Rightarrow> True)"
    using setUserCode_rejection_is_blind_to_store
            [OF sleeping_lock_run [of "stored []"], of "stored []"]
    by (auto simp: sleeping_lock_run split: response.splits)
  from this [rule_format,
      of "[Issued 8 GetCapabilities (Threw ''not supported''),
           Issued 8 (Get 2) (Threw ''timeout'')]" Undefined "Threw ''timeout''"]
  have b: "fst (setUserCode (sim_lock True Undefined [2]) 8 2 ''1111''
                  (start_world [] (stored []))) = Inl (DriverError ''timeout'')"
    by simp
  from a b show ?thesis by (simp add: start_world_def)
qed

section \<open>Properties of saveCode and deleteCode\<close>

lemma find_by_filter: "find P xs = (case filter P xs of [] \<Rightarrow> None | x # _ \<Rightarrow> Some x)"
  by (induction xs) simp_all

lemma filter_slot_after_save:
  "filter (\<lambda>c. slot c = s)
     (sort_key slot (filter (\<lambda>c. slot c \<noteq> s) cs @ [\<lparr>slot = s, name = nm, pin = b\<rparr>]))
     = [\<lparr>slot = s, name = nm, pin = b\<rparr>]"
proof -
  have "filter (\<lambda>c. slot c = s) (filter (\<lambda>c. slot c \<noteq> s) cs) = []"
    by (induction cs) simp_all
  then show ?thesis by (simp add: sort_key_stable)
qed

lemma set_other_slots_after_save:
  "set (filter (\<lambda>c. slot c \<noteq> s)
     (sort_key slot (filter (\<lambda>c. slot c \<noteq> s) cs @ [\<lparr>slot = s, name = nm, pin = b\<rparr>])))
     = set (filter (\<lambda>c. slot c \<noteq> s) cs)"
  by auto

lemma saveCode_invalid: "\<not> valid_pin p \<Longrightarrow> saveCode C key iv s nm p fs = (Inl InvalidPin, fs)"
  by (simp add: saveCode_def)

lemma saveCode_failure_before_write:
  "fst (saveCode C key iv s nm p fs) = Inl InvalidPin
     \<or> fst (saveCode C key iv s nm p fs) = Inl TypeError
     \<or> fst (saveCode C key iv s nm p fs) = Inl CipherError
   \<Longrightarrow> snd (saveCode C key iv s nm p fs) = fs"
  by (auto simp: saveCode_def saveStorage_def Let_def encrypt_def
        split: json_value.splits sum.splits if_splits write_outcome.splits option.splits)

lemma saveCode_failure_in_write:
  "fst (saveCode C key iv s nm p fs) = Inl WriteError
   \<Longrightarrow> snd (saveCode C key iv s nm p fs) = fs
       \<or> snd (saveCode C key iv s nm p fs) = fs\<lparr>storageFile := Unparseable\<rparr>"
  by (auto simp: saveCode_def saveStorage_def Let_def
        split: json_value.splits sum.splits if_splits write_outcome.splits)

lemma saveCode_success:
  assumes "cipher_correct C" "length key = 32" "length iv = IV_LENGTH"
    and "valid_pin p" "loadStorage fs = Storage cs" "nextWrite fs = Written"
  shows "\<exists>secret. decrypt C key secret = Inr p
           \<and> saveCode C key iv s nm p fs
               = (Inr (), fs\<lparr>storageFile := Parsed (Storage (sort_key slot
                    (filter (\<lambda>c. slot c \<noteq> s) cs @ [\<lparr>slot = s, name = nm, pin = secret\<rparr>])))\<rparr>)"
proof -
  from decrypt_encrypt [OF assms(1-3), of p] obtain secret
    where e: "encrypt C key iv p = Inr secret" and d: "decrypt C key secret = Inr p" by blast
  from e assms(4-6) have "saveCode C key iv s nm p fs
               = (Inr (), fs\<lparr>storageFile := Parsed (Storage (sort_key slot
                    (filter (\<lambda>c. slot c \<noteq> s) cs @ [\<lparr>slot = s, name = nm, pin = secret\<rparr>])))\<rparr>)"
    by (simp add: saveCode_def saveStorage_def)
  with d show ?thesis by blast
qed

text \<open>
  Claim C3, as the code has it: \<open>setUserCode\<close> never writes the code store, whatever its
  outcome: the store is unchanged on every rejection, and on a confirmed set too. A
  record is persisted by a call of \<open>saveCode(slot, name, pin)\<close>: given a cipher that
  works (under the 32-byte key and a 16-byte nonce it encrypts, and decrypts what it
  encrypted), a PIN of 4 to 8 digits, a store file that loads as a storage object and a
  write that succeeds, \<open>saveCode\<close> succeeds, and afterwards the store holds exactly one
  record for the slot, with the name given and a secret that decrypts to the PIN, the
  same set of records of the other slots, and \<open>getCode(slot)\<close> returns the name and the
  PIN. A \<open>saveCode\<close> that throws the format error, the TypeError of a file that is no
  storage object, or a cipher error leaves the file as it was; one that throws in the
  write leaves the file as it was or truncated.
\<close>

theorem setUserCode_keeps_store_saveCode_persists:
  "files (snd (setUserCode drv n s code w)) = files w
   \<and> (cipher_correct C \<and> length key = 32 \<and> length iv = IV_LENGTH
        \<and> valid_pin p \<and> loadStorage fs = Storage cs \<and> nextWrite fs = Written
      \<longrightarrow> fst (saveCode C key iv sl nm p fs) = Inr ()
          \<and> (\<exists>cs' secret. loadStorage (snd (saveCode C key iv sl nm p fs)) = Storage cs'
                \<and> filter (\<lambda>c. slot c = sl) cs' = [\<lparr>slot = sl, name = nm, pin = secret\<rparr>]
                \<and> decrypt C key secret = Inr p
                \<and> set (filter (\<lambda>c. slot c \<noteq> sl) cs') = set (filter (\<lambda>c. slot c \<noteq> sl) cs))
          \<and> getCode C key sl (snd (saveCode C key iv sl nm p fs)) = Inr (Some (nm, p)))
   \<and> (fst (saveCode C key iv sl nm p fs) = Inl InvalidPin
        \<or> fst (saveCode C key iv sl nm p fs) = Inl TypeError
        \<or> fst (saveCode C key iv sl nm p fs) = Inl CipherError
      \<longrightarrow> snd (saveCode C key iv sl nm p fs) = fs)
   \<and> (fst (saveCode C key iv sl nm p fs) = Inl WriteError
      \<longrightarrow> snd (saveCode C key iv sl nm p fs) = fs
          \<or> snd (saveCode C key iv sl nm p fs) = fs\<lparr>storageFile := Unparseable\<rparr>)"
proof -
  have A: "files (snd (setUserCode drv n s code w)) = files w"
    by (rule setUserCode_keeps_files)
  have B: "fst (saveCode C key iv sl nm p fs) = Inl InvalidPin
        \<or> fst (saveCode C key iv sl nm p fs) = Inl TypeError
        \<or> fst (saveCode C key iv sl nm p fs) = Inl CipherError
      \<longrightarrow> snd (saveCode C key iv sl nm p fs) = fs"
    using saveCode_failure_before_write by blast
  have W: "fst (saveCode C key iv sl nm p fs) = Inl WriteError
      \<longrightarrow> snd (saveCode C key iv sl nm p fs) = fs
          \<or> snd (saveCode C key iv sl nm p fs) = fs\<lparr>storageFile := Unparseable\<rparr>"
    using saveCode_failure_in_write by blast
  have S: "fst (saveCode C key iv sl nm p fs) = Inr ()
          \<and> (\<exists>cs' secret. loadStorage (snd (saveCode C key iv sl nm p fs)) = Storage cs'
                \<and> filter (\<lambda>c. slot c = sl) cs' = [\<lparr>slot = sl, name = nm, pin = secret\<rparr>]
                \<and> decrypt C key secret = Inr p
                \<and> set (filter (\<lambda>c. slot c \<noteq> sl) cs') = set (filter (\<lambda>c. slot c \<noteq> sl) cs))
          \<and> getCode C key sl (snd (saveCode C key iv sl nm p fs)) = Inr (Some (nm, p))"
    if h: "cipher_correct C \<and> length key = 32 \<and> length iv = IV_LENGTH
        \<and> valid_pin p \<and> loadStorage fs = Storage cs \<and> nextWrite fs = Written"
  proof -
    from h obtain secret where d: "decrypt C key secret = Inr p"
      and sv: "saveCode C key iv sl nm p fs
               = (Inr (), fs\<lparr>storageFile := Parsed (Storage (sort_key slot
                    (filter (\<lambda>c. slot c \<noteq> sl) cs @ [\<lparr>slot = sl, name = nm, pin = secret\<rparr>])))\<rparr>)"
      using saveCode_success [of C key iv p fs cs sl nm] by blast
    let ?cs' = "sort_key slot (filter (\<lambda>c. slot c \<noteq> sl) cs @ [\<lparr>slot = sl, name = nm, pin = secret\<rparr>])"
    have l: "loadStorage (snd (saveCode C key iv sl nm p fs)) = Storage ?cs'"
      by (simp add: sv loadStorage_def)
    have f: "filter (\<lambda>c. slot c = sl) ?cs' = [\<lparr>slot = sl, name = nm, pin = secret\<rparr>]"
      by (rule filter_slot_after_save)
    have o: "set (filter (\<lambda>c. slot c \<noteq> sl) ?cs') = set (filter (\<lambda>c. slot c \<noteq> sl) cs)"
      by (rule set_other_slots_after_save)
    have 1: "fst (saveCode C key iv sl nm p fs) = Inr ()" using sv by simp
    have 2: "\<exists>cs' secret. loadStorage (snd (saveCode C key iv sl nm p fs)) = Storage cs'
                \<and> filter (\<lambda>c. slot c = sl) cs' = [\<lparr>slot = sl, name = nm, pin = secret\<rparr>]
                \<and> decrypt C key secret = Inr p
                \<and> set (filter (\<lambda>c. slot c \<noteq> sl) cs') = set (filter (\<lambda>c. slot c \<noteq> sl) cs)"
      using l f d o by blast
    have 3: "getCode C key sl (snd (saveCode C key iv sl nm p fs)) = Inr (Some (nm, p))"
      using l f d by (simp add: getCode_def find_by_filter)
    from 1 2 3 show ?thesis by blast
  qed
  from A B W S show ?thesis by blast
qed

theorem setUserCode_keeps_store_saveCode_persists_witness:
  "files (snd (setUserCode (sim_lock True Undefined []) 8 3 ''4321''
                 (start_world [] (stored [family_1111])))) = stored [family_1111]
   \<and> fst (saveCode test_cipher test_key test_iv 3 ''guest'' ''4321'' (stored [family_1111])) = Inr ()
   \<and> getCode test_cipher test_key 3
        (snd (saveCode test_cipher test_key test_iv 3 ''guest'' ''4321'' (stored [family_1111])))
       = Inr (Some (''guest'', ''4321''))
   \<and> snd (saveCode test_cipher test_key test_iv 3 ''guest'' ''43x1'' (stored [family_1111]))
       = stored [family_1111]
   \<and> snd (saveCode test_cipher test_key test_iv 3 ''guest'' ''4321''
            ((stored [family_1111])\<lparr>nextWrite := Truncated\<rparr>))
       = \<lparr>storageFile = Unparseable, nextWrite = Truncated\<rparr>"
proof -
  have h: "cipher_correct test_cipher \<and> length test_key = 32 \<and> length test_iv = IV_LENGTH
        \<and> valid_pin ''4321'' \<and> loadStorage (stored [family_1111]) = Storage [family_1111]
        \<and> nextWrite (stored [family_1111]) = Written"
    by (simp add: test_cipher_correct test_key_def test_iv_def IV_LENGTH_def valid_pin_simps
          loadStorage_def stored_def)
  have i: "fst (saveCode test_cipher test_key test_iv 3 ''guest'' ''43x1'' (stored [family_1111]))
             = Inl InvalidPin"
    by (simp add: saveCode_def valid_pin_def)
  have t: "saveCode test_cipher test_key test_iv 3 ''guest'' ''4321''
            ((stored [family_1111])\<lparr>nextWrite := Truncated\<rparr>)
          = (Inl WriteError, \<lparr>storageFile = Unparseable, nextWrite = Truncated\<rparr>)"
    by (simp add: saveCode_def saveStorage_def valid_pin_simps loadStorage_def stored_def
          encrypt_def test_cipher_def test_key_def test_iv_def)
  have j: "fst (saveCode test_cipher test_key test_iv 3 ''guest'' ''4321''
            ((stored [family_1111])\<lparr>nextWrite := Truncated\<rparr>)) = Inl WriteError"
    by (simp add: t)
  from setUserCode_keeps_store_saveCode_persists
         [of "sim_lock True Undefined []" 8 3 "''4321''" "start_world [] (stored [family_1111])"
             test_cipher test_key test_iv "''4321''" "stored [family_1111]" "[family_1111]"
             3 "''guest''"] h
       setUserCode_keeps_store_saveCode_persists
         [of "sim_lock True Undefined []" 8 3 "''4321''" "start_world [] (stored [family_1111])"
             test_cipher test_key test_iv "''43x1''" "stored [family_1111]" "[family_1111]"
             3 "''guest''"] i
  have "files (snd (setUserCode (sim_lock True Undefined []) 8 3 ''4321''
                 (start_world [] (stored [family_1111])))) = stored [family_1111]
   \<and> fst (saveCode test_cipher test_key test_iv 3 ''guest'' ''4321'' (stored [family_1111])) = Inr ()
   \<and> getCode test_cipher test_key 3
        (snd (saveCode test_cipher test_key test_iv 3 ''guest'' ''4321'' (stored [family_1111])))
       = Inr (Some (''guest'', ''4321''))
   \<and> snd (saveCode test_cipher test_key test_iv 3 ''guest'' ''43x1'' (stored [family_1111]))
       = stored [family_1111]"
    by simp
  moreover from setUserCode_keeps_store_saveCode_persists
         [of "sim_lock True Undefined []" 8 3 "''4321''" "start_world [] (stored [family_1111])"
             test_cipher test_key test_iv "''4321''"
             "(stored [family_1111])\<lparr>nextWrite := Truncated\<rparr>" "[family_1111]"
             3 "''guest''"] j
  have "snd (saveCode test_cipher test_key test_iv 3 ''guest'' ''4321''
            ((stored [family_1111])\<lparr>nextWrite := Truncated\<rparr>))
       = \<lparr>storageFile = Unparseable, nextWrite = Truncated\<rparr>"
    by (simp add: t)
  ultimately show ?thesis by simp
qed

text \<open>
  The claim C3 as stated fails: a lock accepts the PIN 4321 on slot 3, \<open>setUserCode\<close>
  returns normally, and the store, empty before, is empty after; \<open>getCode(3)\<close> is
  \<open>null\<close>.
\<close>

theorem confirmed_set_leaves_store_empty:
  "fst (setUserCode (sim_lock True Undefined []) 8 3 ''4321'' (start_world [] (stored [])))
     = Inr ()
   \<and> getAllCodes (files (snd (setUserCode (sim_lock True Undefined []) 8 3 ''4321''
        (start_world [] (stored []))))) = Inr []
   \<and> getCode test_cipher test_key 3
        (files (snd (setUserCode (sim_lock True Undefined []) 8 3 ''4321''
           (start_world [] (stored []))))) = Inr None"
  by (simp add: accepting_lock_run)
    (simp add: getAllCodes_def getCode_def loadStorage_def stored_def)

lemma setUserCode_never_format_error: "fst (setUserCode drv n s code w) \<noteq> Inl InvalidPin"
proof (cases "nodes drv n = None \<or> (\<exists>nd. nodes drv n = Some nd \<and> \<not> hasUserCodeCC nd)")
  case True
  then show ?thesis by (auto simp: setUserCode_def)
next
  case False
  then obtain nd where nd: "nodes drv n = Some nd" "hasUserCodeCC nd" by auto
  from setUserCode_run [OF nd, of s code w] show ?thesis
  proof (elim disjE exE conjE)
    fix r1 r2 e w'
    assume "setUserCode drv n s code w = (Inl (DriverError e), w')"
    then show ?thesis by simp
  next
    fix r1 r2 r3 v w'
    assume "setUserCode drv n s code w =
                ((case v of
                    Threw e \<Rightarrow> Inl (DriverError e)
                  | _ \<Rightarrow> if userIdStatus v = Some 1 then Inr ()
                         else Inl (SetRejected s (userIdStatus v))), w')"
    then show ?thesis by (cases v) simp_all
  qed
qed

lemma setUserCode_outcomes:
  assumes "nodes drv n = Some nd" "hasUserCodeCC nd"
  shows "(\<exists>r1 r2 e.
            trace (snd (setUserCode drv n s code w))
              = trace w @ [Issued n GetCapabilities r1, Issued n (Get s) r2,
                           Issued n (Set s 1 code) (Threw e)]
            \<and> fst (setUserCode drv n s code w) = Inl (DriverError e))
       \<or> (\<exists>r1 r2 r3 v. (\<forall>e. r3 \<noteq> Threw e)
            \<and> trace (snd (setUserCode drv n s code w))
              = trace w @ [Issued n GetCapabilities r1, Issued n (Get s) r2,
                           Issued n (Set s 1 code) r3, Waited 5000, Issued n (Get s) v]
            \<and> fst (setUserCode drv n s code w)
              = (case v of
                   Threw e \<Rightarrow> Inl (DriverError e)
                 | _ \<Rightarrow> if userIdStatus v = Some 1 then Inr ()
                        else Inl (SetRejected s (userIdStatus v))))"
  using setUserCode_run [OF assms, of s code w]
proof (elim disjE exE conjE)
  fix r1 r2 e w'
  assume "setUserCode drv n s code w = (Inl (DriverError e), w')"
    and "trace w' = trace w @ [Issued n GetCapabilities r1, Issued n (Get s) r2,
                  Issued n (Set s 1 code) (Threw e)]"
  then have "trace (snd (setUserCode drv n s code w))
              = trace w @ [Issued n GetCapabilities r1, Issued n (Get s) r2,
                           Issued n (Set s 1 code) (Threw e)]
            \<and> fst (setUserCode drv n s code w) = Inl (DriverError e)" by simp
  then show ?thesis by blast
next
  fix r1 r2 r3 v w'
  assume "\<forall>e. r3 \<noteq> Threw e"
    and "setUserCode drv n s code w =
                ((case v of
                    Threw e \<Rightarrow> Inl (DriverError e)
                  | _ \<Rightarrow> if userIdStatus v = Some 1 then Inr ()
                         else Inl (SetRejected s (userIdStatus v))), w')"
    and "trace w' = trace w @ [Issued n GetCapabilities r1, Issued n (Get s) r2,
                  Issued n (Set s 1 code) r3, Waited 5000, Issued n (Get s) v]"
  then have "(\<forall>e. r3 \<noteq> Threw e)
            \<and> trace (snd (setUserCode drv n s code w))
              = trace w @ [Issued n GetCapabilities r1, Issued n (Get s) r2,
                           Issued n (Set s 1 code) r3, Waited 5000, Issued n (Get s) v]
            \<and> fst (setUserCode drv n s code w)
              = (case v of
                   Threw e \<Rightarrow> Inl (DriverError e)
                 | _ \<Rightarrow> if userIdStatus v = Some 1 then Inr ()
                        else Inl (SetRejected s (userIdStatus v)))" by simp
  then show ?thesis by blast
qed

lemma setUserCode_first_calls:
  assumes "nodes drv n = Some nd" "hasUserCodeCC nd"
  shows "\<exists>r1 r2 r3 post. trace (snd (setUserCode drv n s code w))
           = trace w @ Issued n GetCapabilities r1 # Issued n (Get s) r2
               # Issued n (Set s 1 code) r3 # post"
  using setUserCode_outcomes [OF assms, of s code w]
proof (elim disjE exE conjE)
  fix r1 r2 e
  assume "trace (snd (setUserCode drv n s code w))
              = trace w @ [Issued n GetCapabilities r1, Issued n (Get s) r2,
                           Issued n (Set s 1 code) (Threw e)]"
  then have "trace (snd (setUserCode drv n s code w))
           = trace w @ Issued n GetCapabilities r1 # Issued n (Get s) r2
               # Issued n (Set s 1 code) (Threw e) # []" by simp
  then show ?thesis by blast
next
  fix r1 r2 r3 v
  assume "trace (snd (setUserCode drv n s code w))
              = trace w @ [Issued n GetCapabilities r1, Issued n (Get s) r2,
                           Issued n (Set s 1 code) r3, Waited 5000, Issued n (Get s) v]"
  then have "trace (snd (setUserCode drv n s code w))
           = trace w @ Issued n GetCapabilities r1 # Issued n (Get s) r2
               # Issued n (Set s 1 code) r3 # [Waited 5000, Issued n (Get s) v]" by simp
  then show ?thesis by blast
qed

text \<open>
  Claim C4, as the code has it: the test \<open>^\d{4,8}$\<close> is made by the code store's
  \<open>saveCode\<close>, which throws the format error on every PIN that fails it and leaves the
  file as it was. \<open>setUserCode\<close> checks neither the PIN nor the slot and never throws the
  format error: on a node with the User Code command class, for every slot and every
  string, it calls \<open>getCapabilities\<close>, \<open>get(slot)\<close> and \<open>set(slot, 1, code)\<close> on the
  driver, in this order. If the \<open>set\<close> call throws, that error is rethrown and nothing
  is read back; otherwise the 5 s wait and the re-read of the slot follow, and the
  re-read decides: success when it reports Occupied, the rejection error when it reports
  anything else, the driver's error when it throws.
\<close>

theorem setUserCode_checks_no_format:
  "(\<not> valid_pin p \<longrightarrow> saveCode C key iv sl nm p fs = (Inl InvalidPin, fs))
   \<and> fst (setUserCode drv n s code w) \<noteq> Inl InvalidPin
   \<and> (nodes drv n = Some nd \<and> hasUserCodeCC nd
      \<longrightarrow> (\<exists>r1 r2 e.
              trace (snd (setUserCode drv n s code w))
                = trace w @ [Issued n GetCapabilities r1, Issued n (Get s) r2,
                             Issued n (Set s 1 code) (Threw e)]
              \<and> fst (setUserCode drv n s code w) = Inl (DriverError e))
          \<or> (\<exists>r1 r2 r3 v. (\<forall>e. r3 \<noteq> Threw e)
              \<and> trace (snd (setUserCode drv n s code w))
                = trace w @ [Issued n GetCapabilities r1, Issued n (Get s) r2,
                             Issued n (Set s 1 code) r3, Waited 5000, Issued n (Get s) v]
              \<and> fst (setUserCode drv n s code w)
                = (case v of
                     Threw e \<Rightarrow> Inl (DriverError e)
                   | _ \<Rightarrow> if userIdStatus v = Some 1 then Inr ()
                          else Inl (SetRejected s (userIdStatus v)))))"
proof -
  have A: "\<not> valid_pin p \<longrightarrow> saveCode C key iv sl nm p fs = (Inl InvalidPin, fs)"
    by (simp add: saveCode_invalid)
  have B: "fst (setUserCode drv n s code w) \<noteq> Inl InvalidPin"
    by (rule setUserCode_never_format_error)
  from A B setUserCode_outcomes [of drv n nd s code w] show ?thesis by blast
qed

lemma malformed_pin_run:
  "setUserCode (sim_lock True Undefined []) 8 99 ''abc'' (start_world [] (stored []))
     = (Inr (),
        \<lparr>net = [(99, 1)],
         trace = [Issued 8 GetCapabilities (Threw ''not supported''),
                  Issued 8 (Get 99) (UserCodeReport 0 None),
                  Issued 8 (Set 99 1 ''abc'') Undefined,
                  Waited 5000,
                  Issued 8 (Get 99) (UserCodeReport 1 None)],
         files = stored []\<rparr>)"
  by (simp add: setUserCode_def call_def wait_def sim_lock_def start_world_def slot_status_def)

lemma strict_driver_run:
  "setUserCode
     \<lparr>nodes = (\<lambda>n. Some (Node True)),
      exec = (\<lambda>d n c. case c of
                Set s st code \<Rightarrow> (Threw ''invalid user code'', d)
              | _ \<Rightarrow> (Undefined, d)),
      elapse = (\<lambda>d ms. d)\<rparr>
     8 99 ''abc'' (start_world () (stored []))
     = (Inl (DriverError ''invalid user code''),
        \<lparr>net = (),
         trace = [Issued 8 GetCapabilities Undefined,
                  Issued 8 (Get 99) Undefined,
                  Issued 8 (Set 99 1 ''abc'') (Threw ''invalid user code'')],
         files = stored []\<rparr>)"
  by (simp add: setUserCode_def call_def wait_def start_world_def)

theorem setUserCode_checks_no_format_witness:
  "saveCode test_cipher test_key test_iv 3 ''guest'' ''abc'' (stored []) = (Inl InvalidPin, stored [])
   \<and> fst (setUserCode (sim_lock True Undefined []) 8 99 ''abc'' (start_world [] (stored [])))
       \<noteq> Inl InvalidPin
   \<and> ((\<exists>r1 r2 e.
          trace (snd (setUserCode (sim_lock True Undefined []) 8 99 ''abc''
                        (start_world [] (stored []))))
            = [Issued 8 GetCapabilities r1, Issued 8 (Get 99) r2,
               Issued 8 (Set 99 1 ''abc'') (Threw e)]
          \<and> fst (setUserCode (sim_lock True Undefined []) 8 99 ''abc''
                   (start_world [] (stored []))) = Inl (DriverError e))
      \<or> (\<exists>r1 r2 r3 v. (\<forall>e. r3 \<noteq> Threw e)
          \<and> trace (snd (setUserCode (sim_lock True Undefined []) 8 99 ''abc''
                          (start_world [] (stored []))))
            = [Issued 8 GetCapabilities r1, Issued 8 (Get 99) r2,
               Issued 8 (Set 99 1 ''abc'') r3, Waited 5000, Issued 8 (Get 99) v]
          \<and> fst (setUserCode (sim_lock True Undefined []) 8 99 ''abc''
                   (start_world [] (stored [])))
            = (case v of
                 Threw e \<Rightarrow> Inl (DriverError e)
               | _ \<Rightarrow> if userIdStatus v = Some 1 then Inr ()
                      else Inl (SetRejected 99 (userIdStatus v)))))"
proof -
  have n: "nodes (sim_lock True Undefined []) 8 = Some (Node True) \<and> hasUserCodeCC (Node True)"
    by (simp add: sim_lock_def)
  from setUserCode_checks_no_format
          [of "''abc''" test_cipher test_key test_iv 3 "''guest''" "stored []"
              "sim_lock True Undefined []" 8 99 "''abc''" "start_world [] (stored [])"
              "Node True"] n
  show ?thesis by (simp add: valid_pin_simps)
qed

text \<open>
  The claim C4 as stated fails: the string \<open>abc\<close> is no PIN of 4 to 8 digits and 99 is
  no slot of 1..30, and on a node with the User Code command class, whatever the driver
  and the device do, \<open>setUserCode\<close> makes its calls on the device, \<open>getCapabilities\<close>,
  \<open>get(99)\<close> and \<open>set(99, 1, 'abc')\<close>, and does not throw the format error.
\<close>

theorem malformed_pin_reaches_the_driver:
  "\<not> valid_pin ''abc''
   \<and> (\<forall>e l (d :: (int \<times> int) list) fs.
        (\<exists>r1 r2 r3 post.
           trace (snd (setUserCode \<lparr>nodes = (\<lambda>n. Some (Node True)), exec = e, elapse = l\<rparr>
                         8 99 ''abc'' (start_world d fs)))
             = Issued 8 GetCapabilities r1 # Issued 8 (Get 99) r2
                 # Issued 8 (Set 99 1 ''abc'') r3 # post)
        \<and> fst (setUserCode \<lparr>nodes = (\<lambda>n. Some (Node True)), exec = e, elapse = l\<rparr>
                  8 99 ''abc'' (start_world d fs)) \<noteq> Inl InvalidPin)"
proof -
  have "\<exists>r1 r2 r3 post.
           trace (snd (setUserCode \<lparr>nodes = (\<lambda>n. Some (Node True)), exec = e, elapse = l\<rparr>
                         8 99 ''abc'' (start_world d fs)))
             = Issued 8 GetCapabilities r1 # Issued 8 (Get 99) r2
                 # Issued 8 (Set 99 1 ''abc'') r3 # post"
    for e l and d :: "(int \<times> int) list" and fs
    using setUserCode_first_calls
            [of "\<lparr>nodes = (\<lambda>n. Some (Node True)), exec = e, elapse = l\<rparr>" 8 "Node True"
                99 "''abc''" "start_world d fs"]
    by simp
  then show ?thesis
    by (simp add: valid_pin_simps setUserCode_never_format_error)
qed

section \<open>Properties of deleteUserCode and deleteCode\<close>

lemma deleteUserCode_keeps_files: "files (snd (deleteUserCode drv n s w)) = files w"
  by (auto simp: deleteUserCode_def call_def split: option.splits prod.splits response.splits)

lemma deleteCode_success:
  assumes "loadStorage fs = Storage cs" "nextWrite fs = Written"
  shows "deleteCode s fs = (Inr (), fs\<lparr>storageFile := Parsed (Storage (filter (\<lambda>c. slot c \<noteq> s) cs))\<rparr>)"
  using assms by (simp add: deleteCode_def saveStorage_def)

lemma deleteUserCode_call:
  assumes "nodes drv n = Some nd" "hasUserCodeCC nd"
  shows "\<exists>r. trace (snd (deleteUserCode drv n s w)) = trace w @ [Issued n (Clear s) r]
           \<and> fst (deleteUserCode drv n s w)
               = (case r of Threw e \<Rightarrow> Inl (DriverError e) | _ \<Rightarrow> Inr ())"
proof -
  obtain r w1 where c: "call drv n (Clear s) w = (r, w1)" by (cases "call drv n (Clear s) w")
  from call_effect [OF c] have t: "trace w1 = trace w @ [Issued n (Clear s) r]" by simp
  from assms c have "deleteUserCode drv n s w
      = ((case r of Threw e \<Rightarrow> Inl (DriverError e) | _ \<Rightarrow> Inr ()), w1)"
    by (cases r) (simp_all add: deleteUserCode_def)
  with t have "trace (snd (deleteUserCode drv n s w)) = trace w @ [Issued n (Clear s) r]
           \<and> fst (deleteUserCode drv n s w)
               = (case r of Threw e \<Rightarrow> Inl (DriverError e) | _ \<Rightarrow> Inr ())" by simp
  then show ?thesis by blast
qed

lemma find_after_delete: "find (\<lambda>c. slot c = s) (filter (\<lambda>c. slot c \<noteq> s) cs) = None"
  by (induction cs) simp_all

lemma filter_absent_slot: "s \<notin> slot ` set cs \<Longrightarrow> filter (\<lambda>c. slot c \<noteq> s) cs = cs"
  by (induction cs) auto

text \<open>
  Claim C7, as the code has it: on a node with the User Code command class
  \<open>deleteUserCode\<close> makes one call, \<open>clear(slot)\<close>, and returns normally unless that
  call throws, in which case the error is rethrown; it never touches the code store,
  whichever happens. The record of a slot is removed from the store by
  \<open>deleteCode(slot)\<close>: on a store file that loads as a storage object and with a write
  that succeeds it does not fail, the store afterwards holds the records of the other
  slots, in their order, and \<open>getCode(slot)\<close> is \<open>null\<close>; for a slot not set before, the
  store's contents are the same after as before.
\<close>

theorem deleteUserCode_clears_deleteCode_removes:
  "files (snd (deleteUserCode drv n s w)) = files w
   \<and> (nodes drv n = Some nd \<and> hasUserCodeCC nd
      \<longrightarrow> (\<exists>r. trace (snd (deleteUserCode drv n s w)) = trace w @ [Issued n (Clear s) r]
              \<and> fst (deleteUserCode drv n s w)
                  = (case r of Threw e \<Rightarrow> Inl (DriverError e) | _ \<Rightarrow> Inr ())))
   \<and> (loadStorage fs = Storage cs \<and> nextWrite fs = Written
      \<longrightarrow> fst (deleteCode sl fs) = Inr ()
          \<and> loadStorage (snd (deleteCode sl fs)) = Storage (filter (\<lambda>c. slot c \<noteq> sl) cs)
          \<and> getCode C key sl (snd (deleteCode sl fs)) = Inr None
          \<and> (sl \<notin> slot ` set cs \<longrightarrow> loadStorage (snd (deleteCode sl fs)) = loadStorage fs))"
proof -
  have A: "files (snd (deleteUserCode drv n s w)) = files w"
    by (rule deleteUserCode_keeps_files)
  have B: "nodes drv n = Some nd \<and> hasUserCodeCC nd
      \<longrightarrow> (\<exists>r. trace (snd (deleteUserCode drv n s w)) = trace w @ [Issued n (Clear s) r]
              \<and> fst (deleteUserCode drv n s w)
                  = (case r of Threw e \<Rightarrow> Inl (DriverError e) | _ \<Rightarrow> Inr ()))"
    using deleteUserCode_call [of drv n nd s w] by blast
  have D: "loadStorage fs = Storage cs \<and> nextWrite fs = Written
      \<longrightarrow> fst (deleteCode sl fs) = Inr ()
          \<and> loadStorage (snd (deleteCode sl fs)) = Storage (filter (\<lambda>c. slot c \<noteq> sl) cs)
          \<and> getCode C key sl (snd (deleteCode sl fs)) = Inr None
          \<and> (sl \<notin> slot ` set cs \<longrightarrow> loadStorage (snd (deleteCode sl fs)) = loadStorage fs)"
    by (auto simp: deleteCode_success loadStorage_def getCode_def
          find_after_delete filter_absent_slot)
  from A B D show ?thesis by blast
qed

lemma delete_runs:
  "deleteUserCode (sim_lock True Undefined []) 8 3 (start_world [(3, 1)] fs)
     = (Inr (), \<lparr>net = [(3, 0), (3, 1)], trace = [Issued 8 (Clear 3) Undefined], files = fs\<rparr>)"
  "deleteUserCode (sim_lock True Undefined [3]) 8 3 (start_world [(3, 1)] fs)
     = (Inl (DriverError ''timeout''),
        \<lparr>net = [(3, 1)], trace = [Issued 8 (Clear 3) (Threw ''timeout'')], files = fs\<rparr>)"
  by (simp_all add: deleteUserCode_def call_def sim_lock_def start_world_def)

theorem deleteUserCode_clears_deleteCode_removes_witness:
  "files (snd (deleteUserCode (sim_lock True Undefined []) 8 3
                 (start_world [(3, 1)] (stored [guest_4321])))) = stored [guest_4321]
   \<and> (\<exists>r. [Issued 8 (Clear 3) (Threw ''timeout'')] = [Issued 8 (Clear 3) r]
          \<and> fst (deleteUserCode (sim_lock True Undefined [3]) 8 3
                   (start_world [(3, 1)] (stored [guest_4321])))
              = (case r of Threw e \<Rightarrow> Inl (DriverError e) | _ \<Rightarrow> Inr ()))
   \<and> fst (deleteCode 3 (stored [guest_4321, family_1111])) = Inr ()
   \<and> loadStorage (snd (deleteCode 3 (stored [guest_4321, family_1111]))) = Storage [family_1111]
   \<and> getCode test_cipher test_key 3 (snd (deleteCode 3 (stored [guest_4321, family_1111])))
       = Inr None
   \<and> loadStorage (snd (deleteCode 7 (stored [guest_4321, family_1111])))
       = loadStorage (stored [guest_4321, family_1111])"
proof -
  have n: "nodes (sim_lock True Undefined [3]) 8 = Some (Node True) \<and> hasUserCodeCC (Node True)"
    by (simp add: sim_lock_def)
  from deleteUserCode_clears_deleteCode_removes
          [of "sim_lock True Undefined [3]" 8 3 "start_world [(3, 1)] (stored [guest_4321])"
              "Node True" "stored [guest_4321, family_1111]" "[guest_4321, family_1111]" 3
              test_cipher test_key] n
  have a: "\<exists>r. [Issued 8 (Clear 3) (Threw ''timeout'')] = [Issued 8 (Clear 3) r]
          \<and> fst (deleteUserCode (sim_lock True Undefined [3]) 8 3
                   (start_world [(3, 1)] (stored [guest_4321])))
              = (case r of Threw e \<Rightarrow> Inl (DriverError e) | _ \<Rightarrow> Inr ())"
    by (simp add: delete_runs)
  from deleteUserCode_clears_deleteCode_removes
          [of "sim_lock True Undefined []" 8 3 "start_world [(3, 1)] (stored [guest_4321])"
              "Node True" "stored [guest_4321, family_1111]" "[guest_4321, family_1111]" 3
              test_cipher test_key]
        deleteUserCode_clears_deleteCode_removes
          [of "sim_lock True Undefined []" 8 3 "start_world [(3, 1)] (stored [guest_4321])"
              "Node True" "stored [guest_4321, family_1111]" "[guest_4321, family_1111]" 7
              test_cipher test_key]
  have b: "files (snd (deleteUserCode (sim_lock True Undefined []) 8 3
                 (start_world [(3, 1)] (stored [guest_4321])))) = stored [guest_4321]
   \<and> fst (deleteCode 3 (stored [guest_4321, family_1111])) = Inr ()
   \<and> loadStorage (snd (deleteCode 3 (stored [guest_4321, family_1111]))) = Storage [family_1111]
   \<and> getCode test_cipher test_key 3 (snd (deleteCode 3 (stored [guest_4321, family_1111])))
       = Inr None
   \<and> loadStorage (snd (deleteCode 7 (stored [guest_4321, family_1111])))
       = loadStorage (stored [guest_4321, family_1111])"
    by (simp add: loadStorage_def stored_def guest_4321_def family_1111_def)
  from a b show ?thesis by blast
qed

text \<open>
  The claim C7 as stated fails: the store holds a record for slot 3, \<open>deleteUserCode\<close>
  of slot 3 returns normally on a lock that clears the slot, and throws on one that
  does not answer, and in both cases the store still lists slot 3.
\<close>

theorem deleteUserCode_leaves_the_record:
  "fst (deleteUserCode (sim_lock True Undefined []) 8 3
          (start_world [(3, 1)] (stored [guest_4321]))) = Inr ()
   \<and> getAllCodes (files (snd (deleteUserCode (sim_lock True Undefined []) 8 3
          (start_world [(3, 1)] (stored [guest_4321]))))) = Inr [(3, ''guest'')]
   \<and> fst (deleteUserCode (sim_lock True Undefined [3]) 8 3
          (start_world [(3, 1)] (stored [guest_4321]))) = Inl (DriverError ''timeout'')
   \<and> getAllCodes (files (snd (deleteUserCode (sim_lock True Undefined [3]) 8 3
          (start_world [(3, 1)] (stored [guest_4321]))))) = Inr [(3, ''guest'')]"
  by (simp add: delete_runs)
    (simp add: getAllCodes_def loadStorage_def stored_def guest_4321_def)

section \<open>Properties of getUserCodes\<close>

lemma occupied_of_query:
  "List.map_filter occupied [Issued n (Get s) r]
     = (case r of UserCodeReport st c \<Rightarrow> if st \<noteq> 0 then [(s, st)] else [] | _ \<Rightarrow> [])"
  by (cases r) (simp_all add: List.map_filter_simps)






section \<open>Properties of the connection lifecycle\<close>

lemma scheduleReconnect_pending:
  "reconnectTimeout st \<noteq> None \<Longrightarrow> scheduleReconnect st = st"
  by (simp add: scheduleReconnect_def)

lemma one_timer_scheduleReconnect: "one_timer st \<Longrightarrow> one_timer (scheduleReconnect st)"
  by (auto simp: one_timer_def scheduleReconnect_def split: option.splits)

lemma one_timer_step: "one_timer st \<Longrightarrow> one_timer (step a st)"
proof (cases a)
  case (DriverErrorEvent msg r)
  assume "one_timer st"
  with DriverErrorEvent show ?thesis by (simp add: one_timer_scheduleReconnect)
next
  case DriverReadyEvent
  assume "one_timer st"
  with DriverReadyEvent show ?thesis
    by (auto simp: one_timer_def clearTimeout_def split: option.splits)
next
  case (StartResolved d)
  assume "one_timer st"
  with StartResolved show ?thesis by (simp add: one_timer_def)
next
  case (StartRejected msg r)
  assume "one_timer st"
  with StartRejected show ?thesis by (simp add: one_timer_scheduleReconnect)
next
  case (TimerFired h)
  assume "one_timer st"
  with TimerFired show ?thesis by (auto simp: one_timer_def split: option.splits)
next
  case OldDriverDestroyed
  assume "one_timer st"
  with OldDriverDestroyed show ?thesis by (simp add: one_timer_def)
next
  case (Shutdown destroyed)
  assume "one_timer st"
  with Shutdown show ?thesis
    by (auto simp: one_timer_def clearTimeout_def Let_def split: option.splits)
qed

lemma one_timer_run: "one_timer st \<Longrightarrow> one_timer (run acts st)"
  unfolding run_def by (induction acts arbitrary: st) (simp_all add: one_timer_step)

text \<open>
  In every state the module can reach, whatever the interleaving of its pieces, at most
  one reconnect timer is pending, and it is the one \<open>reconnectTimeout\<close> holds.
\<close>

lemma at_most_one_timer: "length (timers (run acts initial)) \<le> 1"
proof -
  have "one_timer initial" by (simp add: one_timer_def initial_def)
  then have "one_timer (run acts initial)" by (rule one_timer_run)
  then show ?thesis by (simp add: one_timer_def split: option.splits)
qed

lemma driver_ready_clears:
  "one_timer st \<Longrightarrow>
     timers (step DriverReadyEvent st) = [] \<and> reconnectTimeout (step DriverReadyEvent st) = None
     \<and> \<not> isReconnecting (step DriverReadyEvent st)"
  by (auto simp: one_timer_def clearTimeout_def split: option.splits)

text \<open>
  A state with the flag \<open>isReconnecting\<close> set and no timer pending is stuck: neither
  the \<open>catch\<close> block of \<open>initializeDriver\<close> nor the \<open>'error'\<close> handler schedules a
  reconnect from it, whatever the error.
\<close>

lemma stalled_state_stays:
  "isReconnecting st \<Longrightarrow>
     step (StartRejected msg r) st = st \<and> step (DriverErrorEvent msg r) st = st"
  by simp

lemma port_gone_matches: "msg_includes port_gone ''serial port''"
  by (simp add: port_gone_def)

text \<open>
  With no timer pending the module makes no attempt any more; so after two failures in a
  row with a serial-port error, whatever the driver would do next is never asked.
\<close>

lemma reconnect_loop_without_timer:
  "timers st = [] \<Longrightarrow> reconnect_loop cfg d attempts st = (st, attempts)"
  by (cases attempts) simp_all

lemma reconnect_never_resumes:
  assumes "serialPort cfg = Some port" "port \<noteq> []" "msg_includes m ''serial port''"
  shows "connect cfg (Fails m # Fails m # rest)
     = (\<lparr>driverInstance = None, reconnectTimeout = None, isReconnecting = True,
         timers = [], nextHandle = 1\<rparr>, rest)"
  using assms
  by (simp add: connect_def initializeDriver_def reconnect_callback_def scheduleReconnect_def
        initial_def reconnect_loop_without_timer)

text \<open>
  Claim C5 at three attempts. After one failure and a success the module is connected,
  no timer is pending and the flag is down. After two failures in a row (the serial port
  is gone) it is not: the callback of the one reconnect timer has run, its attempt has
  failed with \<open>isReconnecting\<close> still set, so no second timer was scheduled; no timer
  is pending, no driver is held, and the attempt that would succeed is never made. From
  that state a further failure or \<open>'error'\<close> event of the same kind changes nothing.
\<close>

theorem reconnect_stops_after_second_failure:
  "connect test_config [Fails port_gone, BecomesReady]
     = (\<lparr>driverInstance = Some 1, reconnectTimeout = None, isReconnecting = False,
         timers = [], nextHandle = 1\<rparr>, [])
   \<and> connect test_config [Fails port_gone, Fails port_gone, BecomesReady]
     = (\<lparr>driverInstance = None, reconnectTimeout = None, isReconnecting = True,
         timers = [], nextHandle = 1\<rparr>, [BecomesReady])
   \<and> step (StartRejected port_gone True)
        (fst (connect test_config [Fails port_gone, Fails port_gone, BecomesReady]))
       = fst (connect test_config [Fails port_gone, Fails port_gone, BecomesReady])
   \<and> step (DriverErrorEvent port_gone True)
        (fst (connect test_config [Fails port_gone, Fails port_gone, BecomesReady]))
       = fst (connect test_config [Fails port_gone, Fails port_gone, BecomesReady])"
proof -
  have 1: "connect test_config [Fails port_gone, BecomesReady]
     = (\<lparr>driverInstance = Some 1, reconnectTimeout = None, isReconnecting = False,
         timers = [], nextHandle = 1\<rparr>, [])"
    by (simp add: connect_def initializeDriver_def reconnect_callback_def test_config_def
          port_gone_matches scheduleReconnect_def initial_def clearTimeout_def)
  have 2: "connect test_config [Fails port_gone, Fails port_gone, BecomesReady]
     = (\<lparr>driverInstance = None, reconnectTimeout = None, isReconnecting = True,
         timers = [], nextHandle = 1\<rparr>, [BecomesReady])"
    by (simp add: connect_def initializeDriver_def reconnect_callback_def test_config_def
          port_gone_matches scheduleReconnect_def initial_def clearTimeout_def)
  from 1 2 show ?thesis by simp
qed

end
